theory Spec2Isabelle
  imports Complex_Main "HOL-Library.Log_Nat"
begin

section \<open>Module-level configuration of \<^verbatim>\<open>app.py\<close>\<close>

text \<open>
  The process environment \<^verbatim>\<open>os.environ\<close> is a dictionary from names to strings.
  \<^verbatim>\<open>os.environ.get(k)\<close> is \<open>None\<close> when the variable is unset, and
  \<^verbatim>\<open>os.environ.get(k, d)\<close> is \<open>d\<close> then.
\<close>

type_synonym environ = "string \<rightharpoonup> string"

definition environ_get :: "environ \<Rightarrow> string \<Rightarrow> string \<Rightarrow> string" where
  "environ_get environ k d = (case environ k of None \<Rightarrow> d | Some v \<Rightarrow> v)"

text \<open>Python's truth value of an optional string: \<open>None\<close> and the empty string are false.\<close>

fun truthy :: "string option \<Rightarrow> bool" where
  "truthy None = False"
| "truthy (Some s) = (s \<noteq> [])"

definition FRAMES_DIR :: string where
  "FRAMES_DIR = ''frames''"

definition VIDEOS_DIR :: string where
  "VIDEOS_DIR = ''static/videos''"

record config =
  secret_key :: string
  ADMIN_PASSWORD :: "string option"

text \<open>
  Lines 14 to 24: what importing the module computes from the environment, and the lines
  it prints. No statement of the module raises on an unset variable.
\<close>

definition startup :: "environ \<Rightarrow> config \<times> string list" where
  "startup environ =
     (let pw = environ ''ADMIN_PASSWORD'' in
      (\<lparr>secret_key = environ_get environ ''SESSION_SECRET'' ''anvesh-ai-video-generator-secret'',
        ADMIN_PASSWORD = pw\<rparr>,
       if \<not> truthy pw
       then [''WARNING: ADMIN_PASSWORD environment variable is not set. Admin panel will be inaccessible.'',
             ''Please set the ADMIN_PASSWORD secret in Replit Secrets to enable admin access.'']
       else []))"

section \<open>The metadata document\<close>

text \<open>
  One entry of the \<^verbatim>\<open>videos\<close> list of \<^verbatim>\<open>video_metadata.json\<close> (lines 218 to 225);
  field \<open>v_k\<close> is the value under the key \<^verbatim>\<open>k\<close>.
\<close>

record video_info =
  v_id :: string
  v_filename :: string
  v_prompt :: string
  v_num_frames :: nat
  v_created_at :: string
  v_file_size :: nat

record metadata =
  videos :: "video_info list"
  total_generated :: int

section \<open>Responses and sessions\<close>

datatype body =
    Error string
  | Failure string
  | Success
  | Generated string string nat
  | Redirect string
  | Page string
  | AdminPage "video_info list" int
  | Attachment string
  | Text string
  | Stats nat int nat
  | InternalServerError

record response =
  body :: body
  status :: nat

text \<open>\<^verbatim>\<open>jsonify(...)\<close> alone answers with status 200.\<close>

definition jsonify :: "body \<Rightarrow> nat \<Rightarrow> response" where
  "jsonify b s = \<lparr>body = b, status = s\<rparr>"

record session =
  admin_logged_in :: bool

text \<open>
  \<^verbatim>\<open>admin_login\<close>, lines 146 to 157. The argument \<open>posted\<close> is \<open>None\<close> for a GET and
  \<open>Some pw\<close> for a POST whose JSON body has \<open>pw\<close> under \<^verbatim>\<open>password\<close>
  (again \<open>None\<close> when the key is missing). With an empty secret key Flask hands out a
  session that can be read but not written: writing it raises, and the request is
  answered with status 500.
\<close>

definition admin_login :: "config \<Rightarrow> string option option \<Rightarrow> session \<Rightarrow> response \<times> session" where
  "admin_login cfg posted s =
     (case posted of
        Some password \<Rightarrow>
          if \<not> truthy (ADMIN_PASSWORD cfg)
          then (jsonify (Failure ''Admin password not configured. Please set ADMIN_PASSWORD in Replit Secrets.'') 500, s)
          else if truthy password \<and> password = ADMIN_PASSWORD cfg
          then (if secret_key cfg = [] then (jsonify InternalServerError 500, s)
                else (jsonify Success 200, s\<lparr>admin_logged_in := True\<rparr>))
          else (jsonify (Failure ''Invalid password'') 401, s)
      | None \<Rightarrow> (jsonify (Page ''admin_login.html'') 200, s))"

definition admin_logout :: "config \<Rightarrow> session \<Rightarrow> response \<times> session" where
  "admin_logout cfg s =
     (if secret_key cfg = [] then (jsonify InternalServerError 500, s)
      else (jsonify (Redirect ''index'') 302, s\<lparr>admin_logged_in := False\<rparr>))"

section \<open>Strings\<close>

definition digit :: "nat \<Rightarrow> char" where
  "digit d = ''0123456789'' ! d"

text \<open>\<^verbatim>\<open>str(n)\<close> and the f-string field \<^verbatim>\<open>{n}\<close> of a natural number.\<close>

fun str :: "nat \<Rightarrow> string" where
  "str n = (if n < 10 then [digit n] else str (n div 10) @ [digit (n mod 10)])"

declare str.simps [simp del]

text \<open>The f-string field \<^verbatim>\<open>{index:03d}\<close>: at least three digits, padded with zeros.\<close>

definition format_03d :: "nat \<Rightarrow> string" where
  "format_03d n = replicate (3 - length (str n)) (CHR ''0'') @ str n"

definition os_path_join :: "string \<Rightarrow> string \<Rightarrow> string" where
  "os_path_join d f = d @ ''/'' @ f"

text \<open>
  \<^verbatim>\<open>str.strip()\<close> removes leading and trailing whitespace. A character of the model
  is a code point below 256; among those, Python's whitespace is tab, line feed, vertical
  tab, form feed, carriage return, the four separators 0x1C to 0x1F, space, next line
  (0x85) and no-break space (0xA0).
\<close>

definition isspace :: "char \<Rightarrow> bool" where
  "isspace c = (c \<in> set [CHR 0x09, CHR 0x0A, CHR 0x0B, CHR 0x0C, CHR 0x0D,
                         CHR 0x1C, CHR 0x1D, CHR 0x1E, CHR 0x1F, CHR 0x20,
                         CHR 0x85, CHR 0xA0])"

definition strip :: "string \<Rightarrow> string" where
  "strip s = rev (dropWhile isspace (rev (dropWhile isspace s)))"

section \<open>The persisted state\<close>

text \<open>
  What a request can see and change: the metadata document (absent until first saved),
  the entries of the frames directory, the files of the videos directory, and the trace
  of network requests and sleeps performed so far.
\<close>

datatype fkind = RegularFile | Directory

record video_file =
  seconds :: rat
  bytes :: nat

datatype event = Get nat nat | Sleep nat

record world =
  metadata_file :: "metadata option"
  frames :: "string \<rightharpoonup> fkind"
  video_files :: "string \<rightharpoonup> video_file"
  effects :: "event list"

definition load_metadata :: "world \<Rightarrow> metadata" where
  "load_metadata w =
     (case metadata_file w of
        Some m \<Rightarrow> m
      | None \<Rightarrow> \<lparr>videos = [], total_generated = 0\<rparr>)"

definition save_metadata :: "metadata \<Rightarrow> world \<Rightarrow> world" where
  "save_metadata m w = w\<lparr>metadata_file := Some m\<rparr>"

definition emit :: "event \<Rightarrow> world \<Rightarrow> world" where
  "emit ev w = w\<lparr>effects := effects w @ [ev]\<rparr>"

section \<open>Remote image fetcher\<close>

text \<open>
  What one pass through the \<^verbatim>\<open>try\<close> block of \<^verbatim>\<open>generate_image_async\<close> meets:
  a response with a status code (for 200 the body is read and written to the frame file),
  an exception before the frame file is opened (a transport error, a failed read, a
  failed \<^verbatim>\<open>open\<close>), or a response with status 200 whose body cannot be written: line
  49 has created the file when line 50 raises, so the file stays.
  The remote service is a parameter: attempt \<open>k\<close> (from 0) for a frame meets \<open>remote k\<close>.
\<close>

datatype attempt = Status nat | Raised | WriteFailed

definition frame_name :: "nat \<Rightarrow> string" where
  "frame_name index = ''frame_'' @ format_03d index @ ''.png''"

definition frame_path :: "nat \<Rightarrow> string" where
  "frame_path index = os_path_join FRAMES_DIR (frame_name index)"

definition write_frame :: "nat \<Rightarrow> world \<Rightarrow> world" where
  "write_frame index w = w\<lparr>frames := (frames w)(frame_name index \<mapsto> RegularFile)\<rparr>"

text \<open>
  The loop \<^verbatim>\<open>for attempt in range(max_retries)\<close> of lines 43 to 63, over the attempt
  numbers still to run. The URL (prompt and seed) only selects the remote's answers and
  is left out.
\<close>

fun retry_loop :: "(nat \<Rightarrow> attempt) \<Rightarrow> nat \<Rightarrow> nat \<Rightarrow> nat list \<Rightarrow> world \<Rightarrow> string option \<times> world" where
  "retry_loop remote index max_retries [] w = (None, w)"
| "retry_loop remote index max_retries (attempt # rest) w =
     (let w1 = emit (Get index attempt) w in
      case remote attempt of
        Status code \<Rightarrow>
          if code = 200 then (Some (frame_path index), write_frame index w1)
          else if code = 429
          then retry_loop remote index max_retries rest (emit (Sleep ((attempt + 1) * 5)) w1)
          else retry_loop remote index max_retries rest (emit (Sleep 3) w1)
      | Raised \<Rightarrow>
          if attempt < max_retries - 1
          then retry_loop remote index max_retries rest (emit (Sleep 3) w1)
          else retry_loop remote index max_retries rest w1
      | WriteFailed \<Rightarrow>
          if attempt < max_retries - 1
          then retry_loop remote index max_retries rest (emit (Sleep 3) (write_frame index w1))
          else retry_loop remote index max_retries rest (write_frame index w1))"

definition generate_image_async :: "(nat \<Rightarrow> attempt) \<Rightarrow> nat \<Rightarrow> nat \<Rightarrow> world \<Rightarrow> string option \<times> world" where
  "generate_image_async remote index max_retries w =
     retry_loop remote index max_retries [0..<max_retries] w"

section \<open>Frame sequence orchestrator\<close>

text \<open>
  The parts of a request's surroundings that the handler reads: the remote service's
  answer for each frame index and attempt, the clock, the random id suffix, whether
  resizing and encoding go through (\<open>encoded = Some n\<close>: a file of \<open>n\<close> bytes is written),
  the text \<^verbatim>\<open>str(e)\<close> of an exception, which is the raising library's and may be empty,
  and the files of the frames directory that \<^verbatim>\<open>os.unlink\<close> fails to remove.
\<close>

datatype py_error = ZeroDivisionError | ValueError | IndexError | OSError

record env =
  net :: "nat \<Rightarrow> nat \<Rightarrow> attempt"
  time_time :: nat
  randint :: nat
  isoformat :: string
  resized :: bool
  encoded :: "nat option"
  exception_text :: "py_error \<Rightarrow> string"
  unlink_fails :: "string \<Rightarrow> bool"

text \<open>The loop \<^verbatim>\<open>for i in range(num_frames)\<close> of lines 76 to 84.\<close>

fun frames_loop :: "env \<Rightarrow> int \<Rightarrow> nat list \<Rightarrow> world \<Rightarrow> string option list \<times> world" where
  "frames_loop e n [] w = ([], w)"
| "frames_loop e n (i # rest) w =
     (let (path, w1) = generate_image_async (net e i) i 5 w;
          w2 = (if int i < n - 1 then emit (Sleep 2) w1 else w1);
          (frame_paths, w3) = frames_loop e n rest w2
      in (path # frame_paths, w3))"

definition generate_frames :: "env \<Rightarrow> string \<Rightarrow> int \<Rightarrow> world \<Rightarrow> string list \<times> world" where
  "generate_frames e prompt n w =
     (let (frame_paths, w1) = frames_loop e n [0..<nat n] w;
          successful_frames = map the (filter (\<lambda>path. path \<noteq> None) frame_paths)
      in (successful_frames, w1))"

section \<open>Video assembler\<close>

text \<open>
  A moviepy clip is a description of what to show: a sequence of images at a frame rate,
  clips played one after the other, or the part of a clip between two times. Its
  duration is the nominal one: images over rate, the sum of the parts, the length of the
  window. \<^verbatim>\<open>ImageSequenceClip\<close> needs an image and a rate,
  \<^verbatim>\<open>concatenate_videoclips\<close> needs a clip, and \<^verbatim>\<open>subclipped\<close> refuses times beyond
  the clip.
\<close>

datatype clip =
    Sequence "string list" nat
  | Concatenated "clip list"
  | Subclip clip rat rat

fun clip_duration :: "clip \<Rightarrow> rat" where
  "clip_duration (Sequence images fps) = of_nat (length images) / of_nat fps"
| "clip_duration (Concatenated clips) = sum_list (map clip_duration clips)"
| "clip_duration (Subclip c start_time end_time) = end_time - start_time"

definition ImageSequenceClip :: "string list \<Rightarrow> nat \<Rightarrow> py_error + clip" where
  "ImageSequenceClip sequence fps =
     (if sequence = [] then Inl IndexError
      else if fps = 0 then Inl ZeroDivisionError
      else Inr (Sequence sequence fps))"

definition concatenate_videoclips :: "clip list \<Rightarrow> py_error + clip" where
  "concatenate_videoclips clips =
     (if clips = [] then Inl ValueError
      else Inr (Concatenated clips))"

definition subclipped :: "clip \<Rightarrow> rat \<Rightarrow> rat \<Rightarrow> py_error + clip" where
  "subclipped c start_time end_time =
     (if clip_duration c \<le> start_time \<or> clip_duration c < end_time then Inl ValueError
      else Inr (Subclip c start_time end_time))"

text \<open>
  Python's floats are IEEE 754 doubles. A double is modelled by the rational it stands
  for, and a division by the exact quotient rounded to the nearest double, ties to the
  even significand: \<open>exponent x\<close> is the power of two at or below \<open>x\<close>, the doubles
  around \<open>x\<close> are the multiples of \<open>2 powi (exponent x - 52)\<close>. Overflow and subnormal
  numbers are left out; the quotients of lines 102 and 105 are far from both.
\<close>

definition exponent :: "rat \<Rightarrow> int" where
  "exponent x =
     (let (p, q) = quotient_of x; e = bitlen p - bitlen q
      in if 2 powi e \<le> x then e else e - 1)"

definition rne :: "rat \<Rightarrow> int" where
  "rne m =
     (let f = \<lfloor>m\<rfloor>; r = m - of_int f
      in if r < 1 / 2 then f else if 1 / 2 < r then f + 1 else if even f then f else f + 1)"

definition fl :: "rat \<Rightarrow> rat" where
  "fl x =
     (if x = 0 then 0
      else if x < 0 then - (of_int (rne (- x / 2 powi (exponent (- x) - 52))) * 2 powi (exponent (- x) - 52))
      else of_int (rne (x / 2 powi (exponent x - 52))) * 2 powi (exponent x - 52))"

text \<open>Python's \<^verbatim>\<open>int(x)\<close> of a float truncates towards zero.\<close>

definition py_int :: "rat \<Rightarrow> int" where
  "py_int x = (if 0 \<le> x then \<lfloor>x\<rfloor> else \<lceil>x\<rceil>)"

text \<open>
  Lines 104 to 109 of \<^verbatim>\<open>create_video\<close>: the duration policy. \<open>duration\<close> is the
  double of line 102, and \<^verbatim>\<open>4 / duration\<close> is a division of doubles.
\<close>

definition adjust_duration :: "clip \<Rightarrow> rat \<Rightarrow> py_error + clip" where
  "adjust_duration c duration =
     (if duration < 4 then
        (if duration = 0 then Inl ZeroDivisionError
         else let num_loops = py_int (fl (4 / duration)) + 1 in
           case concatenate_videoclips (replicate (nat num_loops) c) of
             Inl err \<Rightarrow> Inl err
           | Inr looped \<Rightarrow> subclipped looped 0 4)
      else if 6 < duration then subclipped c 0 6
      else Inr c)"

text \<open>
  \<^verbatim>\<open>create_video\<close>, lines 93 to 120. Resizing the frames in place and encoding are
  the environment's (\<open>resized\<close>, \<open>encoded\<close>); every exception is re-raised to the caller.
  Line 102 divides two integers: the result is the double nearest to the quotient.
\<close>

definition create_video :: "env \<Rightarrow> string list \<Rightarrow> string \<Rightarrow> nat \<Rightarrow> world \<Rightarrow> py_error + string \<times> world" where
  "create_video e frame_paths output_filename fps w =
     (if frame_paths \<noteq> [] \<and> \<not> resized e then Inl OSError
      else case ImageSequenceClip frame_paths fps of
        Inl err \<Rightarrow> Inl err
      | Inr c \<Rightarrow>
          let duration = fl (of_nat (length frame_paths) / of_nat fps) in
          (case adjust_duration c duration of
             Inl err \<Rightarrow> Inl err
           | Inr c' \<Rightarrow>
               (case encoded e of
                  None \<Rightarrow> Inl OSError
                | Some n \<Rightarrow>
                    Inr (os_path_join VIDEOS_DIR output_filename,
                         w\<lparr>video_files := (video_files w)(output_filename \<mapsto>
                              \<lparr>seconds = clip_duration c', bytes = n\<rparr>)\<rparr>))))"

text \<open>
  \<^verbatim>\<open>cleanup_frames\<close>, lines 122 to 130: every regular file of the frames directory is
  unlinked; a file whose \<^verbatim>\<open>os.unlink\<close> fails stays (lines 129 and 130 print and go
  on), and so do the entries that are not regular files.
\<close>

definition cleanup_frames :: "env \<Rightarrow> world \<Rightarrow> world" where
  "cleanup_frames e w =
     w\<lparr>frames := (\<lambda>file. case frames w file of
                             Some RegularFile \<Rightarrow> if unlink_fails e file then Some RegularFile else None
                           | entry \<Rightarrow> entry)\<rparr>"

section \<open>Request handlers\<close>

text \<open>The JSON body of \<^verbatim>\<open>POST /generate\<close>; a missing key is \<open>None\<close>.\<close>

record generate_request =
  json_prompt :: "string option"
  json_num_frames :: "int option"

text \<open>\<^verbatim>\<open>generate_video\<close>, lines 188 to 240.\<close>

definition generate_video :: "env \<Rightarrow> generate_request \<Rightarrow> world \<Rightarrow> response \<times> world" where
  "generate_video e data w =
     (let prompt = strip (case json_prompt data of None \<Rightarrow> [] | Some p \<Rightarrow> p);
          num_frames = (case json_num_frames data of None \<Rightarrow> 15 | Some n \<Rightarrow> n)
      in
      if prompt = [] then (jsonify (Error ''Prompt is required'') 400, w)
      else
        let num_frames = (if num_frames < 10 \<or> num_frames > 20 then 15 else num_frames);
            w1 = cleanup_frames e w;
            (frame_paths, w2) = generate_frames e prompt num_frames w1
        in
        if frame_paths = [] then (jsonify (Error ''Failed to generate frames'') 500, w2)
        else
          let timestamp = time_time e;
              output_filename = ''anvesh_video_'' @ str timestamp @ ''.mp4''
          in
          case create_video e frame_paths output_filename 24 w2 of
            Inl err \<Rightarrow> (jsonify (Error (exception_text e err)) 500, cleanup_frames e w2)
          | Inr (video_path, w3) \<Rightarrow>
              let w4 = cleanup_frames e w3;
                  metadata = load_metadata w4;
                  video_id = ''vid_'' @ str timestamp @ ''_'' @ str (randint e)
              in
              (case video_files w4 output_filename of
                 None \<Rightarrow> (jsonify (Error (exception_text e OSError)) 500, cleanup_frames e w4)
               | Some file \<Rightarrow>
                   let video_info = \<lparr>v_id = video_id, v_filename = output_filename,
                                     v_prompt = prompt, v_num_frames = length frame_paths,
                                     v_created_at = isoformat e, v_file_size = bytes file\<rparr>;
                       metadata' = metadata\<lparr>videos := video_info # videos metadata,
                                             total_generated := total_generated metadata + 1\<rparr>;
                       w5 = save_metadata metadata' w4
                   in (jsonify (Generated (''/static/videos/'' @ output_filename)
                                          (''/download/'' @ output_filename)
                                          (length frame_paths)) 200, w5)))"

text \<open>\<^verbatim>\<open>delete_video\<close>, lines 164 to 186.\<close>

definition delete_video :: "session \<Rightarrow> string \<Rightarrow> world \<Rightarrow> response \<times> world" where
  "delete_video s video_id w =
     (if \<not> admin_logged_in s then (jsonify (Error ''Unauthorized'') 401, w)
      else
        let metadata = load_metadata w;
            video_to_delete = find (\<lambda>video. v_id video = video_id) (videos metadata)
        in
        case video_to_delete of
          Some video \<Rightarrow>
            let w1 = (if video_files w (v_filename video) \<noteq> None
                      then w\<lparr>video_files := (video_files w)(v_filename video := None)\<rparr>
                      else w);
                metadata' = metadata\<lparr>videos := filter (\<lambda>v. v_id v \<noteq> video_id) (videos metadata)\<rparr>
            in (jsonify Success 200, save_metadata metadata' w1)
        | None \<Rightarrow> (jsonify (Error ''Video not found'') 404, w))"

text \<open>The handlers that only read: lines 132 to 144 and 242 to 261.\<close>

definition index :: response where
  "index = jsonify (Page ''index.html'') 200"

definition admin :: "session \<Rightarrow> world \<Rightarrow> response" where
  "admin s w =
     (if \<not> admin_logged_in s then jsonify (Redirect ''admin_login'') 302
      else let metadata = load_metadata w
           in jsonify (AdminPage (videos metadata) (total_generated metadata)) 200)"

definition download_video :: "string \<Rightarrow> world \<Rightarrow> response" where
  "download_video file w =
     (if video_files w file \<noteq> None then jsonify (Attachment file) 200
      else jsonify (Text ''Video not found'') 404)"

text \<open>The storage total of \<^verbatim>\<open>stats\<close> is kept in bytes, before the rounding to megabytes.\<close>

definition stats :: "session \<Rightarrow> world \<Rightarrow> response" where
  "stats s w =
     (if \<not> admin_logged_in s then jsonify (Error ''Unauthorized'') 401
      else let metadata = load_metadata w;
               total_size = sum_list (map v_file_size (videos metadata))
           in jsonify (Stats (length (videos metadata)) (total_generated metadata) total_size) 200)"

text \<open>
  The routes of the application, and a browser session sending a sequence of requests.
  A \<open>Generate\<close> request carries the surroundings it runs in.
\<close>

datatype route =
    GetIndex
  | GetAdmin
  | GetAdminLogin
  | PostAdminLogin "string option"
  | GetAdminLogout
  | DeleteVideo string
  | PostGenerate env generate_request
  | GetDownload string
  | GetStats

fun dispatch :: "config \<Rightarrow> route \<Rightarrow> session \<times> world \<Rightarrow> response \<times> session \<times> world" where
  "dispatch cfg GetIndex (s, w) = (index, s, w)"
| "dispatch cfg GetAdmin (s, w) = (admin s w, s, w)"
| "dispatch cfg GetAdminLogin (s, w) = (let (r, s') = admin_login cfg None s in (r, s', w))"
| "dispatch cfg (PostAdminLogin pw) (s, w) = (let (r, s') = admin_login cfg (Some pw) s in (r, s', w))"
| "dispatch cfg GetAdminLogout (s, w) = (let (r, s') = admin_logout cfg s in (r, s', w))"
| "dispatch cfg (DeleteVideo video_id) (s, w) = (let (r, w') = delete_video s video_id w in (r, s, w'))"
| "dispatch cfg (PostGenerate e data) (s, w) = (let (r, w') = generate_video e data w in (r, s, w'))"
| "dispatch cfg (GetDownload file) (s, w) = (download_video file w, s, w)"
| "dispatch cfg GetStats (s, w) = (stats s w, s, w)"

fun serve :: "config \<Rightarrow> route list \<Rightarrow> session \<times> world \<Rightarrow> response list \<times> session \<times> world" where
  "serve cfg [] sw = ([], sw)"
| "serve cfg (r # rs) sw =
     (let (resp, sw1) = dispatch cfg r sw;
          (resps, sw2) = serve cfg rs sw1
      in (resp # resps, sw2))"

text \<open>A fresh deployment: no metadata document, empty directories, nothing done yet.\<close>

definition fresh :: world where
  "fresh = \<lparr>metadata_file = None, frames = Map.empty, video_files = Map.empty, effects = []\<rparr>"

section \<open>The retry policy in the specification's words\<close>

text \<open>
  What the fetcher does after attempt number \<open>k\<close> (counted from 1) has met \<open>a\<close>:
  after a 429 it waits \<open>k * 5\<close> seconds, after any other status but 200 it waits 3
  seconds, after an exception (before or after the file is opened) it waits 3 seconds
  unless the attempt was the fifth.
\<close>

definition backoff :: "attempt \<Rightarrow> nat \<Rightarrow> event list" where
  "backoff a k =
     (case a of
        Status code \<Rightarrow> if code = 200 then [] else if code = 429 then [Sleep (k * 5)] else [Sleep 3]
      | Raised \<Rightarrow> if k < 5 then [Sleep 3] else []
      | WriteFailed \<Rightarrow> if k < 5 then [Sleep 3] else [])"

text \<open>
  The attempts among the first five that fail before the first status 200, and the
  attempts made: one more than those, and never more than five.
\<close>

definition failed_attempts :: "(nat \<Rightarrow> attempt) \<Rightarrow> nat" where
  "failed_attempts remote = length (takeWhile (\<lambda>k. remote k \<noteq> Status 200) [0..<5])"

definition attempts_made :: "(nat \<Rightarrow> attempt) \<Rightarrow> nat" where
  "attempts_made remote = min 5 (failed_attempts remote + 1)"

definition image_trace :: "(nat \<Rightarrow> attempt) \<Rightarrow> nat \<Rightarrow> event list" where
  "image_trace remote i =
     concat (map (\<lambda>k. Get i k # backoff (remote k) (k + 1)) [0..<attempts_made remote])"

text \<open>
  A frame is fetched when one of its five attempts meets status 200. Its file is touched
  when one of the five attempts meets status 200 or fails to write the file it opened.
\<close>

definition fetched :: "env \<Rightarrow> nat \<Rightarrow> bool" where
  "fetched e i = (failed_attempts (net e i) < 5)"

definition touched :: "(nat \<Rightarrow> attempt) \<Rightarrow> bool" where
  "touched remote = list_ex (\<lambda>k. remote k = Status 200 \<or> remote k = WriteFailed) [0..<5]"

definition frames_trace :: "env \<Rightarrow> int \<Rightarrow> nat list \<Rightarrow> event list" where
  "frames_trace e n is =
     concat (map (\<lambda>i. image_trace (net e i) i @ (if int i < n - 1 then [Sleep 2] else [])) is)"

definition written :: "env \<Rightarrow> nat list \<Rightarrow> (string \<rightharpoonup> fkind) \<Rightarrow> (string \<rightharpoonup> fkind)" where
  "written e is d = fold (\<lambda>i d. if touched (net e i) then d(frame_name i \<mapsto> RegularFile) else d) is d"

section \<open>Names for the parts of a generation request\<close>

text \<open>
  The prompt and the frame count as \<^verbatim>\<open>generate_video\<close> reads them from the JSON body
  (lines 191 and 192), the frame count it goes on with (lines 197 and 198), and the
  file name and record id it makes from the clock and the random suffix (lines 208, 209
  and 216).
\<close>

definition posted_prompt :: "generate_request \<Rightarrow> string" where
  "posted_prompt data = strip (case json_prompt data of None \<Rightarrow> [] | Some p \<Rightarrow> p)"

definition posted_frames :: "generate_request \<Rightarrow> int" where
  "posted_frames data = (case json_num_frames data of None \<Rightarrow> 15 | Some n \<Rightarrow> n)"

definition effective_frames :: "generate_request \<Rightarrow> int" where
  "effective_frames data =
     (if posted_frames data < 10 \<or> 20 < posted_frames data then 15 else posted_frames data)"

definition output_name :: "env \<Rightarrow> string" where
  "output_name e = ''anvesh_video_'' @ str (time_time e) @ ''.mp4''"

definition new_id :: "env \<Rightarrow> string" where
  "new_id e = ''vid_'' @ str (time_time e) @ ''_'' @ str (randint e)"

text \<open>
  The paths of the frames fetched among the first \<open>n\<close>, in index order, and the world
  once the frames directory is cleared and the orchestrator has run.
\<close>

definition frames_fetched :: "env \<Rightarrow> int \<Rightarrow> string list" where
  "frames_fetched e n = map frame_path (filter (fetched e) [0..<nat n])"

definition after_frames :: "env \<Rightarrow> int \<Rightarrow> world \<Rightarrow> world" where
  "after_frames e n w =
     (cleanup_frames e w)\<lparr>frames := written e [0..<nat n] (frames (cleanup_frames e w)),
                        effects := effects w @ frames_trace e n [0..<nat n]\<rparr>"

text \<open>
  The world after a generation that went through, with a video of \<open>sz\<close> bytes; that
  \<^verbatim>\<open>generate_video\<close> returns this world is lemma \<open>generate_video_stored\<close> below.
\<close>

definition stored :: "env \<Rightarrow> generate_request \<Rightarrow> int \<Rightarrow> nat \<Rightarrow> world \<Rightarrow> world" where
  "stored e data n sz w =
     (let w3 = (after_frames e n w)\<lparr>video_files :=
                 (video_files (after_frames e n w))(output_name e \<mapsto> \<lparr>seconds = 4, bytes = sz\<rparr>)\<rparr>;
          w4 = cleanup_frames e w3;
          info = \<lparr>v_id = new_id e, v_filename = output_name e, v_prompt = posted_prompt data,
                  v_num_frames = length (frames_fetched e n), v_created_at = isoformat e,
                  v_file_size = sz\<rparr>
      in save_metadata ((load_metadata w4)\<lparr>videos := info # videos (load_metadata w4),
            total_generated := total_generated (load_metadata w4) + 1\<rparr>) w4)"

text \<open>The frames whose first attempt is in a trace, in the order of the trace.\<close>

fun frames_begun :: "event list \<Rightarrow> nat list" where
  "frames_begun [] = []"
| "frames_begun (Get i k # evs) = (if k = 0 then i # frames_begun evs else frames_begun evs)"
| "frames_begun (Sleep t # evs) = frames_begun evs"

text \<open>The counter of the metadata document as the handlers read it.\<close>

definition counter :: "world \<Rightarrow> int" where
  "counter w = total_generated (load_metadata w)"

definition generated :: "response \<Rightarrow> bool" where
  "generated r = (case body r of Generated video_url download_url n \<Rightarrow> True | _ \<Rightarrow> False)"

section \<open>Sample surroundings\<close>

text \<open>A remote that answers 429, then fails to connect, then answers 503, then 200.\<close>

definition flaky :: "nat \<Rightarrow> attempt" where
  "flaky k = (if k = 0 then Status 429 else if k = 1 then Raised else if k = 2 then Status 503 else Status 200)"

text \<open>
  A remote that always answers 200, one that throttles frame 3 for good, one that is
  unreachable, an encoder that fails, and a request for fifteen frames. Exceptions have
  the empty text here, and every unlink goes through.
\<close>

definition calm :: env where
  "calm = \<lparr>net = (\<lambda>i k. Status 200), time_time = 1700000000, randint = 4242,
           isoformat = ''2023-11-14T22:13:20'', resized = True, encoded = Some 1048576,
           exception_text = (\<lambda>err. []), unlink_fails = (\<lambda>file. False)\<rparr>"

definition throttled :: env where
  "throttled = calm\<lparr>net := (\<lambda>i k. if i = 3 then Status 429 else Status 200)\<rparr>"

definition offline :: env where
  "offline = calm\<lparr>net := (\<lambda>i k. Raised)\<rparr>"

definition broken :: env where
  "broken = calm\<lparr>encoded := None\<rparr>"

text \<open>A remote that answers 200 every time while the disk takes no more data.\<close>

definition diskfull :: env where
  "diskfull = calm\<lparr>net := (\<lambda>i k. WriteFailed)\<rparr>"

definition lake :: generate_request where
  "lake = \<lparr>json_prompt = Some ''a calm lake at dawn'', json_num_frames = Some 15\<rparr>"


text \<open>An environment in which the operator has set both secrets.\<close>

definition operator_environ :: environ where
  "operator_environ = [''SESSION_SECRET'' \<mapsto> ''s3cr3t'', ''ADMIN_PASSWORD'' \<mapsto> ''hunter2'']"

text \<open>A session that has logged in, and surroundings like \<open>calm\<close> at another time.\<close>

definition admin_session :: session where
  "admin_session = \<lparr>admin_logged_in = True\<rparr>"

definition at_time :: "nat \<Rightarrow> env" where
  "at_time t = calm\<lparr>time_time := t\<rparr>"

text \<open>A document with two records, and the document two generations in the same second leave.\<close>

definition dawn :: video_info where
  "dawn = \<lparr>v_id = ''vid_1700000000_4242'', v_filename = ''anvesh_video_1700000000.mp4'',
            v_prompt = ''a calm lake at dawn'', v_num_frames = 15,
            v_created_at = ''2023-11-14T22:13:20'', v_file_size = 1048576\<rparr>"

definition dusk :: video_info where
  "dusk = \<lparr>v_id = ''vid_1700000060_1000'', v_filename = ''anvesh_video_1700000060.mp4'',
            v_prompt = ''a calm lake at dusk'', v_num_frames = 14,
            v_created_at = ''2023-11-14T22:14:20'', v_file_size = 2097152\<rparr>"

definition shelf :: world where
  "shelf = fresh\<lparr>metadata_file := Some \<lparr>videos = [dusk, dawn], total_generated = 2\<rparr>,
                  video_files := [''anvesh_video_1700000000.mp4'' \<mapsto> \<lparr>seconds = 4, bytes = 1048576\<rparr>,
                                  ''anvesh_video_1700000060.mp4'' \<mapsto> \<lparr>seconds = 4, bytes = 2097152\<rparr>]\<rparr>"

definition twins :: world where
  "twins = snd (generate_video calm lake (snd (generate_video calm lake fresh)))"

section \<open>The fetcher and the orchestrator computed\<close>

lemma write_frame_effects [simp]:
  "write_frame i (w\<lparr>effects := E\<rparr>) = (write_frame i w)\<lparr>effects := E\<rparr>"
  "effects (write_frame i w) = effects w"
  "metadata_file (write_frame i w) = metadata_file w"
  "video_files (write_frame i w) = video_files w"
  "write_frame i (write_frame i w) = write_frame i w"
  by (simp_all add: write_frame_def)

lemma retry_loop_fail:
  "\<forall>k \<in> set ks. remote k \<noteq> Status 200 \<Longrightarrow>
   retry_loop remote i 5 ks w =
     (None, (if list_ex (\<lambda>k. remote k = WriteFailed) ks then write_frame i w else w)
              \<lparr>effects := effects w @ concat (map (\<lambda>k. Get i k # backoff (remote k) (k + 1)) ks)\<rparr>)"
proof (induction ks arbitrary: w)
  case Nil
  show ?case by simp
next
  case (Cons k ks)
  then show ?case
    by (cases "remote k") (simp_all add: emit_def backoff_def Let_def)
qed

lemma retry_loop_hit:
  "remote k = Status 200 \<Longrightarrow> \<forall>j \<in> set js. remote j \<noteq> Status 200 \<Longrightarrow>
   retry_loop remote i 5 (js @ k # ks) w =
     (Some (frame_path i),
      (write_frame i w)\<lparr>effects := effects w @ concat (map (\<lambda>k. Get i k # backoff (remote k) (k + 1)) (js @ [k]))\<rparr>)"
proof (induction js arbitrary: w)
  case Nil
  then show ?case by (simp add: emit_def backoff_def)
next
  case (Cons j js)
  then show ?case
    by (cases "remote j") (simp_all add: emit_def backoff_def Let_def)
qed

lemma failed_attempts_le: "failed_attempts remote \<le> 5"
  unfolding failed_attempts_def
  using length_takeWhile_le [of "\<lambda>k. remote k \<noteq> Status 200" "[0..<5]"] by simp

lemma takeWhile_upt:
  "takeWhile P [0..<n] = [0..<length (takeWhile P [0..<n])]"
  by (metis (no_types) takeWhile_eq_take take_upt add_0 length_takeWhile_le length_upt diff_zero)

lemma failed_attempts_all:
  assumes "failed_attempts remote = 5"
  shows "\<forall>k \<in> set [0..<5]. remote k \<noteq> Status 200"
proof -
  have "takeWhile (\<lambda>k. remote k \<noteq> Status 200) [0..<5] = [0..<5]"
    using assms takeWhile_upt [of "\<lambda>k. remote k \<noteq> Status 200" 5]
    by (simp add: failed_attempts_def)
  then show ?thesis
    unfolding takeWhile_eq_all_conv .
qed

lemma failed_attempts_first:
  assumes "failed_attempts remote < 5"
  shows "remote (failed_attempts remote) = Status 200"
    and "\<forall>j \<in> set [0..<failed_attempts remote]. remote j \<noteq> Status 200"
proof -
  let ?P = "\<lambda>k. remote k \<noteq> Status 200"
  have len: "length (takeWhile ?P [0..<5]) < length [0..<5]"
    using assms by (simp add: failed_attempts_def)
  have "\<not> ?P ([0..<5] ! length (takeWhile ?P [0..<5]))"
    using len by (rule nth_length_takeWhile)
  moreover have "[0..<5] ! length (takeWhile ?P [0..<5]) = length (takeWhile ?P [0..<5])"
    using len by (metis add_0 length_upt diff_zero nth_upt)
  ultimately show "remote (failed_attempts remote) = Status 200"
    by (simp add: failed_attempts_def)
  have tw: "takeWhile ?P [0..<5] = [0..<failed_attempts remote]"
    using takeWhile_upt [of ?P 5] by (simp add: failed_attempts_def)
  show "\<forall>j \<in> set [0..<failed_attempts remote]. remote j \<noteq> Status 200"
  proof
    fix j
    assume "j \<in> set [0..<failed_attempts remote]"
    then have "j \<in> set (takeWhile ?P [0..<5])"
      by (simp only: tw)
    then show "remote j \<noteq> Status 200"
      by (rule set_takeWhileD [THEN conjunct2])
  qed
qed

lemma upt_5_split: "(f::nat) < 5 \<Longrightarrow> [0..<5] = [0..<f] @ f # [Suc f..<5]"
proof -
  assume a: "f < 5"
  have "[0..<f + (5 - f)] = [0..<f] @ [f..<f + (5 - f)]"
    by (rule upt_add_eq_append) simp
  moreover have "f + (5 - f) = 5" using a by simp
  ultimately have "[0..<5] = [0..<f] @ [f..<5]" by (simp only:)
  also have "[f..<5] = f # [Suc f..<5]" using a by (rule upt_conv_Cons)
  finally show ?thesis .
qed

lemma touched_hit: "failed_attempts remote < 5 \<Longrightarrow> touched remote"
  using failed_attempts_first(1) [of remote]
  by (auto simp: touched_def list_ex_iff)

lemma touched_fail:
  "failed_attempts remote = 5 \<Longrightarrow> touched remote = list_ex (\<lambda>k. remote k = WriteFailed) [0..<5]"
  using failed_attempts_all [of remote]
  by (auto simp: touched_def list_ex_iff)

lemma generate_image_async_eq:
  "generate_image_async remote i 5 w =
     (if failed_attempts remote < 5 then Some (frame_path i) else None,
      (if touched remote then write_frame i w else w)\<lparr>effects := effects w @ image_trace remote i\<rparr>)"
proof (cases "failed_attempts remote < 5")
  case True
  let ?f = "failed_attempts remote"
  note split = upt_5_split [OF True]
  have "attempts_made remote = Suc ?f"
    using True by (simp add: attempts_made_def)
  then have made: "[0..<attempts_made remote] = [0..<?f] @ [?f]"
    by simp
  have "retry_loop remote i 5 ([0..<?f] @ ?f # [Suc ?f..<5]) w =
     (Some (frame_path i),
      (write_frame i w)\<lparr>effects := effects w @ concat (map (\<lambda>k. Get i k # backoff (remote k) (k + 1)) ([0..<?f] @ [?f]))\<rparr>)"
    using failed_attempts_first [OF True] by (intro retry_loop_hit)
  then have "retry_loop remote i 5 [0..<5] w =
     (Some (frame_path i), (write_frame i w)\<lparr>effects := effects w @ image_trace remote i\<rparr>)"
    unfolding image_trace_def made split [symmetric] .
  then show ?thesis
    using True touched_hit [OF True] by (simp only: generate_image_async_def if_True)
next
  case False
  then have five: "failed_attempts remote = 5"
    using failed_attempts_le [of remote] by simp
  then have made: "attempts_made remote = 5"
    by (simp add: attempts_made_def)
  have "retry_loop remote i 5 [0..<5] w =
     (None, (if touched remote then write_frame i w else w)\<lparr>effects := effects w @ image_trace remote i\<rparr>)"
    unfolding image_trace_def made touched_fail [OF five]
    using failed_attempts_all [OF five] by (rule retry_loop_fail)
  then show ?thesis
    using False by (simp only: generate_image_async_def if_False)
qed

lemma frames_write_frame: "frames (write_frame i w) = (frames w)(frame_name i \<mapsto> RegularFile)"
  by (simp add: write_frame_def)

lemma frames_loop_eq:
  "frames_loop e n is w =
     (map (\<lambda>i. if fetched e i then Some (frame_path i) else None) is,
      w\<lparr>frames := written e is (frames w), effects := effects w @ frames_trace e n is\<rparr>)"
proof (induction "is" arbitrary: w)
  case Nil
  show ?case by (simp add: written_def frames_trace_def)
next
  case (Cons i "is")
  show ?case
    by (simp add: Cons.IH generate_image_async_eq fetched_def written_def frames_trace_def
        emit_def write_frame_def)
qed

lemma successful_frames_eq:
  "map the (filter (\<lambda>path. path \<noteq> None) (map (\<lambda>i. if P i then Some (f i) else None) is)) =
   map f (filter P is)"
  by (induction "is") simp_all

lemma generate_frames_eq:
  "generate_frames e prompt n w =
     (map frame_path (filter (fetched e) [0..<nat n]),
      w\<lparr>frames := written e [0..<nat n] (frames w),
        effects := effects w @ frames_trace e n [0..<nat n]\<rparr>)"
  by (simp only: generate_frames_def frames_loop_eq Let_def prod.case successful_frames_eq)

section \<open>The retry policy of the fetcher\<close>

text \<open>
  Claim C6. \<^verbatim>\<open>generate_image_async\<close> makes at most five attempts for a frame. Its
  trace is, for each attempt made, the request followed by the wait the policy gives:
  \<open>k * 5\<close> seconds after a 429 on attempt \<open>k\<close> (counted from 1), 3 seconds after
  any other status but 200, 3 seconds after an exception unless the attempt was the
  fifth. The waits after a status also happen after the fifth attempt, when no retry
  follows. It returns \<open>None\<close> exactly when none of the five attempts met status 200,
  and then nothing has changed but the trace and, when an attempt opened the frame's file
  and failed to write it, that one file: no other file, no metadata, and no file at all
  when no attempt got as far as opening it.
\<close>

theorem generate_image_async_retry_policy:
  "attempts_made remote \<le> 5
   \<and> fst (generate_image_async remote i 5 w) =
       (if failed_attempts remote < 5 then Some (frame_path i) else None)
   \<and> effects (snd (generate_image_async remote i 5 w)) =
       effects w @ concat (map (\<lambda>k. Get i k # backoff (remote k) (k + 1)) [0..<attempts_made remote])
   \<and> (fst (generate_image_async remote i 5 w) = None \<longrightarrow>
        (\<forall>k < 5. remote k \<noteq> Status 200)
        \<and> attempts_made remote = 5
        \<and> metadata_file (snd (generate_image_async remote i 5 w)) = metadata_file w
        \<and> frames (snd (generate_image_async remote i 5 w)) =
            frames (if touched remote then write_frame i w else w)
        \<and> ((\<forall>k < 5. remote k \<noteq> WriteFailed) \<longrightarrow>
              frames (snd (generate_image_async remote i 5 w)) = frames w)
        \<and> video_files (snd (generate_image_async remote i 5 w)) = video_files w)
   \<and> backoff (Status 429) k = [Sleep (k * 5)]
   \<and> (code \<noteq> 200 \<and> code \<noteq> 429 \<longrightarrow> backoff (Status code) k = [Sleep 3])
   \<and> backoff Raised k = (if k < 5 then [Sleep 3] else [])
   \<and> backoff WriteFailed k = (if k < 5 then [Sleep 3] else [])"
proof -
  have quiet: "\<not> touched remote"
    if "\<forall>k < 5. remote k \<noteq> Status 200" "\<forall>k < 5. remote k \<noteq> WriteFailed"
    using that by (simp add: touched_def list_ex_iff)
  have "\<forall>k < 5. remote k \<noteq> Status 200" if "\<not> failed_attempts remote < 5"
  proof -
    from that have "failed_attempts remote = 5"
      using failed_attempts_le [of remote] by simp
    then show ?thesis
      using failed_attempts_all [of remote] by simp
  qed
  moreover have "attempts_made remote = 5" if "\<not> failed_attempts remote < 5"
    using that by (simp add: attempts_made_def)
  moreover have "attempts_made remote \<le> 5"
    by (simp add: attempts_made_def)
  ultimately show ?thesis
    using quiet by (simp add: generate_image_async_eq image_trace_def backoff_def)
qed

theorem generate_image_async_retry_policy_witness:
  "fst (generate_image_async flaky 7 5 fresh) = Some ''frames/frame_007.png''
   \<and> effects (snd (generate_image_async flaky 7 5 fresh)) =
       [Get 7 0, Sleep 5, Get 7 1, Sleep 3, Get 7 2, Sleep 3, Get 7 3]
   \<and> fst (generate_image_async (\<lambda>k. Status 429) 7 5 fresh) = None
   \<and> effects (snd (generate_image_async (\<lambda>k. Status 429) 7 5 fresh)) =
       [Get 7 0, Sleep 5, Get 7 1, Sleep 10, Get 7 2, Sleep 15, Get 7 3, Sleep 20, Get 7 4, Sleep 25]
   \<and> effects (snd (generate_image_async (\<lambda>k. Raised) 7 5 fresh)) =
       [Get 7 0, Sleep 3, Get 7 1, Sleep 3, Get 7 2, Sleep 3, Get 7 3, Sleep 3, Get 7 4]"
proof -
  have path: "frame_path 7 = ''frames/frame_007.png''"
    by code_simp
  have made: "attempts_made flaky = 4" "attempts_made (\<lambda>k. Status 429) = 5"
    "attempts_made (\<lambda>k. Raised) = 5"
    by (simp_all add: attempts_made_def failed_attempts_def flaky_def upt_rec)
  have failed: "failed_attempts flaky = 3" "failed_attempts (\<lambda>k. Status 429) = 5"
    by (simp_all add: failed_attempts_def flaky_def upt_rec)
  show ?thesis
    using generate_image_async_retry_policy [of flaky 7 fresh 1 500]
      generate_image_async_retry_policy [of "\<lambda>k. Status 429" 7 fresh 1 500]
      generate_image_async_retry_policy [of "\<lambda>k. Raised" 7 fresh 1 500]
    by (simp add: path made failed backoff_def flaky_def fresh_def upt_rec)
qed

section \<open>The assembler and the handler computed\<close>

subsection \<open>Rounding to the nearest double\<close>

lemma pow2_pos [simp]: "(0::rat) < 2 powi e"
  by (simp add: power_int_def)

lemma pow2_mono: "e \<le> e' \<Longrightarrow> (2::rat) powi e \<le> 2 powi e'"
  using power_int_increasing [of e e' "2::rat"] by simp

lemma pow2_add: "(2::rat) powi (a + b) = 2 powi a * 2 powi b"
  by (simp add: power_int_add)

lemma pow2_diff: "(2::rat) powi (a - b) = 2 powi a / 2 powi b"
  by (simp add: power_int_diff)

lemma pow2_le_imp: "(2::rat) powi e \<le> 2 powi e' \<Longrightarrow> e \<le> e'"
proof (rule ccontr)
  assume a: "2 powi e \<le> (2::rat) powi e'" and "\<not> e \<le> e'"
  then have "e' < e" by simp
  then have "(2::rat) powi e' < 2 powi e"
    by (intro power_int_strict_increasing) simp_all
  with a show False by simp
qed

lemma bitlen_bracket:
  fixes p q :: int
  assumes "0 < p" "0 < q"
  shows "(2::rat) powi (bitlen p - bitlen q - 1) < of_int p / of_int q"
    and "of_int p / of_int q < (2::rat) powi (bitlen p - bitlen q + 1)"
proof -
  have bp: "1 \<le> bitlen p" "1 \<le> bitlen q"
    using assms bitlen_eq_zero_iff [of p] bitlen_eq_zero_iff [of q] bitlen_nonneg [of p] bitlen_nonneg [of q]
    by linarith+
  have "2 ^ nat (bitlen p - 1) \<le> p" "p < 2 ^ nat (bitlen p)"
    "2 ^ nat (bitlen q - 1) \<le> q" "q < 2 ^ nat (bitlen q)"
    using bitlen_bounds [OF assms(1)] bitlen_bounds [OF assms(2)] by simp_all
  then have "(of_int (2 ^ nat (bitlen p - 1)) :: rat) \<le> of_int p" "(of_int p :: rat) < of_int (2 ^ nat (bitlen p))"
    "(of_int (2 ^ nat (bitlen q - 1)) :: rat) \<le> of_int q" "(of_int q :: rat) < of_int (2 ^ nat (bitlen q))"
    by (simp_all only: of_int_le_iff of_int_less_iff)
  then have b: "(2::rat) powi (bitlen p - 1) \<le> of_int p" "(of_int p :: rat) < 2 powi bitlen p"
    "(2::rat) powi (bitlen q - 1) \<le> of_int q" "(of_int q :: rat) < 2 powi bitlen q"
    using bp by (simp_all add: power_int_def)
  have qpos: "(0::rat) < of_int q" using assms by simp
  have "(2::rat) powi (bitlen p - bitlen q - 1) = 2 powi (bitlen p - 1) / 2 powi bitlen q"
    using pow2_diff [of "bitlen p - 1" "bitlen q"] by (simp add: algebra_simps)
  also have "\<dots> \<le> of_int p / 2 powi bitlen q"
    using b(1) by (simp add: divide_right_mono)
  also have "\<dots> < of_int p / of_int q"
    using b(4) qpos assms(1) by (simp add: divide_strict_left_mono)
  finally show "(2::rat) powi (bitlen p - bitlen q - 1) < of_int p / of_int q" .
  have "of_int p / of_int q < (2::rat) powi bitlen p / of_int q"
    using b(2) qpos by (simp add: divide_strict_right_mono)
  also have "\<dots> \<le> 2 powi bitlen p / 2 powi (bitlen q - 1)"
    using b(3) qpos by (intro divide_left_mono) simp_all
  also have "\<dots> = 2 powi (bitlen p - bitlen q + 1)"
    using pow2_diff [of "bitlen p" "bitlen q - 1"] by (simp add: algebra_simps)
  finally show "of_int p / of_int q < (2::rat) powi (bitlen p - bitlen q + 1)" .
qed

lemma exponent_bounds:
  assumes "0 < x"
  shows "2 powi exponent x \<le> x" and "x < 2 powi (exponent x + 1)"
proof -
  obtain p q where pq: "quotient_of x = (p, q)" by (cases "quotient_of x")
  then have x: "x = of_int p / of_int q" and q: "0 < q"
    by (simp_all add: quotient_of_div quotient_of_denom_pos)
  have p: "0 < p"
    using assms q by (simp add: x zero_less_divide_iff)
  note br = bitlen_bracket [OF p q, folded x]
  show "2 powi exponent x \<le> x"
    using br(1) by (auto simp: exponent_def pq Let_def algebra_simps)
  show "x < 2 powi (exponent x + 1)"
    using br(2) by (auto simp: exponent_def pq Let_def not_le)
qed


lemma rne_lower: "of_int j \<le> m \<Longrightarrow> j \<le> rne m"
proof -
  assume "of_int j \<le> m"
  then have "j \<le> \<lfloor>m\<rfloor>" by (simp add: le_floor_iff)
  then show ?thesis by (simp add: rne_def Let_def)
qed

lemma rne_upper: "m \<le> of_int j \<Longrightarrow> rne m \<le> j"
proof -
  assume a: "m \<le> of_int j"
  show ?thesis
  proof (cases "m = of_int \<lfloor>m\<rfloor>")
    case True
    then have "rne m = \<lfloor>m\<rfloor>" by (simp add: rne_def Let_def)
    moreover have "\<lfloor>m\<rfloor> \<le> j" using a by (simp add: floor_le_iff)
    ultimately show ?thesis by simp
  next
    case False
    then have "of_int \<lfloor>m\<rfloor> \<noteq> m" by (rule not_sym)
    then have "of_int \<lfloor>m\<rfloor> < m"
      using of_int_floor_le [of m] by (rule order.not_eq_order_implies_strict)
    with a have "(of_int \<lfloor>m\<rfloor> :: rat) < of_int j" by linarith
    then have "\<lfloor>m\<rfloor> + 1 \<le> j" by simp
    then show ?thesis by (simp add: rne_def Let_def)
  qed
qed

lemma rne_err: "\<bar>of_int (rne m) - m\<bar> \<le> 1 / 2"
proof -
  have "of_int \<lfloor>m\<rfloor> \<le> m" "m < of_int \<lfloor>m\<rfloor> + 1"
    by linarith+
  then show ?thesis
    by (auto simp: rne_def Let_def abs_le_iff)
qed

lemma fl_nonneg_eq:
  "0 < x \<Longrightarrow> fl x = of_int (rne (x / 2 powi (exponent x - 52))) * 2 powi (exponent x - 52)"
  by (simp add: fl_def)

lemma fl_err:
  assumes "0 < x"
  shows "\<bar>fl x - x\<bar> \<le> x / 2 ^ 53"
proof -
  let ?u = "(2::rat) powi (exponent x - 52)"
  have u: "0 < ?u" by simp
  have "\<bar>of_int (rne (x / ?u)) - x / ?u\<bar> * ?u \<le> 1 / 2 * ?u"
    using rne_err [of "x / ?u"] u by (intro mult_right_mono) simp_all
  moreover have "\<bar>of_int (rne (x / ?u)) - x / ?u\<bar> * ?u = \<bar>fl x - x\<bar>"
  proof -
    have "\<bar>of_int (rne (x / ?u)) - x / ?u\<bar> * ?u = \<bar>(of_int (rne (x / ?u)) - x / ?u) * ?u\<bar>"
      using u by (simp add: abs_mult)
    also have "(of_int (rne (x / ?u)) - x / ?u) * ?u = fl x - x"
      using u assms by (simp add: fl_nonneg_eq left_diff_distrib)
    finally show ?thesis .
  qed
  moreover have "1 / 2 * ?u = 2 powi exponent x / 2 ^ 53"
    using pow2_diff [of "exponent x" 52] by simp
  moreover have "2 powi exponent x / 2 ^ 53 \<le> x / 2 ^ 53"
    using exponent_bounds(1) [OF assms] by (simp add: divide_right_mono)
  ultimately show ?thesis by simp
qed

lemma fl_ge_pow2:
  assumes "0 < x"
  shows "2 powi exponent x \<le> fl x"
proof -
  let ?u = "(2::rat) powi (exponent x - 52)"
  have "2 powi exponent x / ?u \<le> x / ?u"
    using exponent_bounds(1) [OF assms] by (simp add: divide_right_mono)
  moreover have "2 powi exponent x / ?u = of_int (2 ^ 52)"
    using pow2_diff [of "exponent x" "exponent x - 52"] by simp
  ultimately have "2 ^ 52 \<le> rne (x / ?u)"
    by (intro rne_lower) simp
  then have "(of_int (2 ^ 52) :: rat) \<le> of_int (rne (x / ?u))"
    by (simp only: of_int_le_iff)
  then have le: "of_int (2 ^ 52) * ?u \<le> of_int (rne (x / ?u)) * ?u"
    by (intro mult_right_mono) simp_all
  have "2 powi exponent x = of_int (2 ^ 52) * ?u"
    using pow2_add [of 52 "exponent x - 52"] by simp
  also note le
  also have "of_int (rne (x / ?u)) * ?u = fl x"
    using assms by (simp only: fl_nonneg_eq)
  finally show ?thesis .
qed

lemma fl_pos: "0 < x \<Longrightarrow> 0 < fl x"
  using fl_ge_pow2 [of x] pow2_pos [of "exponent x"] by linarith

lemma grid_int:
  assumes "e \<le> 52"
  shows "of_int j / (2::rat) powi (e - 52) = of_int (j * 2 ^ nat (52 - e))"
proof -
  have "(2::rat) powi (e - 52) = 1 / 2 ^ nat (52 - e)"
    using assms by (simp add: power_int_def field_simps)
  then show ?thesis by simp
qed

lemma fl_le_int:
  assumes "0 < x" "x \<le> of_int j" "j \<le> 2 ^ 52"
  shows "fl x \<le> of_int j"
proof -
  let ?u = "(2::rat) powi (exponent x - 52)"
  have "(2::rat) powi exponent x \<le> of_int j"
    using exponent_bounds(1) [OF assms(1)] assms(2) by linarith
  also have "(of_int j :: rat) \<le> of_int (2 ^ 52)"
    using assms(3) by (simp only: of_int_le_iff)
  also have "(of_int (2 ^ 52) :: rat) = 2 powi 52" by simp
  finally have e: "exponent x \<le> 52" by (rule pow2_le_imp)
  have "x / ?u \<le> of_int j / ?u"
    using assms(2) by (simp add: divide_right_mono)
  then have "rne (x / ?u) \<le> j * 2 ^ nat (52 - exponent x)"
    unfolding grid_int [OF e] by (rule rne_upper)
  then have "(of_int (rne (x / ?u)) :: rat) \<le> of_int (j * 2 ^ nat (52 - exponent x))"
    by (simp only: of_int_le_iff)
  then have "of_int (rne (x / ?u)) * ?u \<le> of_int (j * 2 ^ nat (52 - exponent x)) * ?u"
    by (intro mult_right_mono) simp_all
  also have "of_int (j * 2 ^ nat (52 - exponent x)) * ?u = of_int j"
    unfolding grid_int [OF e, symmetric] by simp
  finally show ?thesis
    using assms(1) by (simp add: fl_nonneg_eq)
qed

lemma fl_ge_int:
  assumes "0 < x" "of_int j \<le> x" "j \<le> 2 ^ 53"
  shows "of_int j \<le> fl x"
proof (cases "exponent x \<le> 52")
  case e: True
  let ?u = "(2::rat) powi (exponent x - 52)"
  have "of_int j / ?u \<le> x / ?u"
    using assms(2) by (simp add: divide_right_mono)
  then have "j * 2 ^ nat (52 - exponent x) \<le> rne (x / ?u)"
    unfolding grid_int [OF e] by (rule rne_lower)
  then have "(of_int (j * 2 ^ nat (52 - exponent x)) :: rat) \<le> of_int (rne (x / ?u))"
    by (simp only: of_int_le_iff)
  then have le: "of_int (j * 2 ^ nat (52 - exponent x)) * ?u \<le> of_int (rne (x / ?u)) * ?u"
    by (intro mult_right_mono) simp_all
  have "of_int j = of_int (j * 2 ^ nat (52 - exponent x)) * ?u"
    unfolding grid_int [OF e, symmetric] by simp
  also note le
  also have "of_int (rne (x / ?u)) * ?u = fl x"
    using assms(1) by (simp only: fl_nonneg_eq)
  finally show ?thesis .
next
  case False
  then have "53 \<le> exponent x" by simp
  then have "(2::rat) powi 53 \<le> 2 powi exponent x" by (rule pow2_mono)
  moreover have "(of_int j :: rat) \<le> of_int (2 ^ 53)"
    using assms(3) by (simp only: of_int_le_iff)
  ultimately show ?thesis
    using fl_ge_pow2 [OF assms(1)] by simp
qed





lemma loops_suffice:
  fixes n fps :: nat
  assumes "0 < n" "0 < fps" "fps \<le> 2 ^ 51"
  shows "0 < fl (of_nat n / of_nat fps)"
    and "0 < fl (4 / fl (of_nat n / of_nat fps))"
    and "4 \<le> of_int (\<lfloor>fl (4 / fl (of_nat n / of_nat fps))\<rfloor> + 1) * (of_nat n / of_nat fps :: rat)"
proof -
  define N :: rat where "N = of_nat n"
  define F :: rat where "F = of_nat fps"
  define x where "x = N / F"
  define d where "d = fl x"
  define q where "q = fl (4 / d)"
  define L where "L = \<lceil>4 / x\<rceil> - 1"
  have N: "1 \<le> N" and F: "1 \<le> F" "F \<le> 2 ^ 51"
    using assms by (simp_all add: N_def F_def)
  have x: "0 < x" using N F by (simp add: x_def)
  have d: "0 < d" unfolding d_def using x by (rule fl_pos)
  have y: "0 < 4 / d" using d by simp
  have q: "0 < q" unfolding q_def using y by (rule fl_pos)
  have k1: "1 \<le> \<lfloor>q\<rfloor> + 1" using q by simp
  have goal: "4 \<le> of_int (\<lfloor>q\<rfloor> + 1) * x"
  proof (cases "L \<le> 0")
    case True
    then have "\<lceil>4 / x\<rceil> \<le> 1" by (simp add: L_def)
    then have "4 / x \<le> 1" by (simp add: ceiling_le_iff)
    then have a: "4 \<le> x" using x by (simp add: field_simps)
    have "(1::rat) \<le> of_int (\<lfloor>q\<rfloor> + 1)"
      using k1 by (metis of_int_1 of_int_le_iff)
    then have "1 * x \<le> of_int (\<lfloor>q\<rfloor> + 1) * x"
      using x by (intro mult_right_mono) simp_all
    then have "x \<le> of_int (\<lfloor>q\<rfloor> + 1) * x"
      by (simp only: mult_1)
    with a show ?thesis by (rule order_trans)
  next
    case False
    then have Lpos: "1 \<le> L" by simp
    then have Lr: "(1::rat) \<le> of_int L" by (metis of_int_1 of_int_le_iff)
    have Llt: "of_int L < 4 / x"
      unfolding L_def by (simp add: less_ceiling_iff [symmetric]) linarith
    then have "of_int L * x < 4" using x by (simp add: field_simps)
    then have "of_int L * N < 4 * F"
      using F by (simp add: x_def field_simps)
    then have "(of_int (L * int n) :: rat) < of_int (4 * int fps)"
      by (simp add: N_def F_def)
    then have "L * int n < 4 * int fps" by (simp only: of_int_less_iff)
    then have "L * int n \<le> 4 * int fps - 1" by simp
    then have "(of_int (L * int n) :: rat) \<le> of_int (4 * int fps - 1)"
      by (simp only: of_int_le_iff)
    then have LN: "of_int L * N \<le> 4 * F - 1"
      by (simp add: N_def F_def)
    have "fl x - x \<le> x / 2 ^ 53 \<and> - (fl x - x) \<le> x / 2 ^ 53"
      using fl_err [OF x] unfolding abs_le_iff .
    then have derr: "d \<le> x + x / 2 ^ 53"
      unfolding d_def by linarith
    have "of_int L * d \<le> of_int L * (x + x / 2 ^ 53)"
      using derr Lr by (intro mult_left_mono) simp_all
    also have "\<dots> = (of_int L * N) * (1 + 1 / 2 ^ 53) / F"
      by (simp add: x_def field_simps)
    also have "\<dots> \<le> (4 * F - 1) * (1 + 1 / 2 ^ 53) / F"
      using LN F by (intro divide_right_mono mult_right_mono) simp_all
    also have "\<dots> \<le> 4 * F / F"
    proof -
      have "(4 * F - 1) * (1 + 1 / 2 ^ 53) \<le> 4 * F"
        using F by (simp add: field_simps)
      then show ?thesis using F by (intro divide_right_mono) simp_all
    qed
    also have "\<dots> = 4" using F by simp
    finally have "of_int L * d \<le> 4" .
    then have Ly: "of_int L \<le> 4 / d" using d by (simp add: field_simps)
    have "of_int L < 4 * F"
    proof -
      have "4 / x = 4 * F / N" by (simp add: x_def)
      also have "\<dots> \<le> 4 * F / 1"
        using N F by (intro divide_left_mono) simp_all
      finally show ?thesis using Llt by simp
    qed
    also have "4 * F \<le> 2 ^ 53" using F by simp
    finally have "(of_int L :: rat) \<le> of_int (2 ^ 53)" by simp
    then have "L \<le> 2 ^ 53" by (simp only: of_int_le_iff)
    with y Ly have "of_int L \<le> q" unfolding q_def by (rule fl_ge_int)
    then have "L \<le> \<lfloor>q\<rfloor>" by (simp add: le_floor_iff)
    then have "\<lceil>4 / x\<rceil> \<le> \<lfloor>q\<rfloor> + 1" by (simp add: L_def)
    then have "(of_int \<lceil>4 / x\<rceil> :: rat) \<le> of_int (\<lfloor>q\<rfloor> + 1)" by (simp only: of_int_le_iff)
    moreover have "4 / x \<le> of_int \<lceil>4 / x\<rceil>" by simp
    ultimately have "4 / x \<le> of_int (\<lfloor>q\<rfloor> + 1)" by linarith
    then show ?thesis using x by (simp add: field_simps)
  qed
  show "0 < fl (of_nat n / of_nat fps)"
    using d by (simp add: d_def x_def N_def F_def)
  show "0 < fl (4 / fl (of_nat n / of_nat fps))"
    using q by (simp add: q_def d_def x_def N_def F_def)
  show "4 \<le> of_int (\<lfloor>fl (4 / fl (of_nat n / of_nat fps))\<rfloor> + 1) * (of_nat n / of_nat fps :: rat)"
    using goal by (simp add: q_def d_def x_def N_def F_def)
qed





lemma clip_duration_looped:
  "clip_duration (Concatenated (replicate k c)) = of_nat k * clip_duration c"
  by (simp add: map_replicate_const sum_list_replicate)

lemma adjust_duration_loops:
  assumes "fs \<noteq> []" "0 < fps" "fps \<le> 2 ^ 51"
    and "fl (of_nat (length fs) / of_nat fps) < 4"
  shows "0 < py_int (fl (4 / fl (of_nat (length fs) / of_nat fps))) + 1"
    and "4 \<le> clip_duration (Concatenated (replicate
            (nat (py_int (fl (4 / fl (of_nat (length fs) / of_nat fps))) + 1)) (Sequence fs fps)))"
    and "adjust_duration (Sequence fs fps) (fl (of_nat (length fs) / of_nat fps)) =
         Inr (Subclip (Concatenated (replicate
            (nat (py_int (fl (4 / fl (of_nat (length fs) / of_nat fps))) + 1)) (Sequence fs fps))) 0 4)"
proof -
  define x :: rat where "x = of_nat (length fs) / of_nat fps"
  define d where "d = fl x"
  define q where "q = fl (4 / d)"
  define k where "k = py_int q + 1"
  have n: "0 < length fs" using assms(1) by simp
  note ls = loops_suffice [OF n assms(2,3), folded x_def, folded d_def, folded q_def]
  have pq: "py_int q = \<lfloor>q\<rfloor>" using ls(2) by (simp add: py_int_def)
  have "0 \<le> \<lfloor>q\<rfloor>" using ls(2) by simp
  then have k: "0 < k" by (simp add: k_def pq)
  have kk: "(of_nat (nat k) :: rat) = of_int k"
    using k by simp
  have "clip_duration (Concatenated (replicate (nat k) (Sequence fs fps))) =
      of_nat (nat k) * clip_duration (Sequence fs fps)"
    by (rule clip_duration_looped)
  also have "\<dots> = of_int k * x"
    by (simp only: kk clip_duration.simps x_def)
  finally have dur: "clip_duration (Concatenated (replicate (nat k) (Sequence fs fps))) = of_int k * x" .
  have four: "4 \<le> of_int k * x"
    using ls(3) by (simp add: k_def pq)
  have ne: "replicate (nat k) (Sequence fs fps) \<noteq> []"
    using k by simp
  have conc: "concatenate_videoclips (replicate (nat k) (Sequence fs fps)) =
      Inr (Concatenated (replicate (nat k) (Sequence fs fps)))"
    using ne by (simp only: concatenate_videoclips_def if_False)
  have sub: "subclipped (Concatenated (replicate (nat k) (Sequence fs fps))) 0 4 =
      Inr (Subclip (Concatenated (replicate (nat k) (Sequence fs fps))) 0 4)"
    using four unfolding subclipped_def dur by simp
  have "adjust_duration (Sequence fs fps) d =
      (case concatenate_videoclips (replicate (nat k) (Sequence fs fps)) of
         Inl err \<Rightarrow> Inl err
       | Inr looped \<Rightarrow> subclipped looped 0 4)"
    using assms(4) [folded x_def, folded d_def] ls(1) unfolding k_def q_def
    by (simp add: adjust_duration_def Let_def)
  also have "\<dots> = Inr (Subclip (Concatenated (replicate (nat k) (Sequence fs fps))) 0 4)"
    by (simp only: conc sum.case sub)
  finally have adj: "adjust_duration (Sequence fs fps) d =
      Inr (Subclip (Concatenated (replicate (nat k) (Sequence fs fps))) 0 4)" .
  show "0 < py_int (fl (4 / fl (of_nat (length fs) / of_nat fps))) + 1"
    using k by (simp add: k_def q_def d_def x_def)
  show "4 \<le> clip_duration (Concatenated (replicate
            (nat (py_int (fl (4 / fl (of_nat (length fs) / of_nat fps))) + 1)) (Sequence fs fps)))"
    using four dur by (simp only: k_def q_def d_def x_def)
  show "adjust_duration (Sequence fs fps) (fl (of_nat (length fs) / of_nat fps)) =
         Inr (Subclip (Concatenated (replicate
            (nat (py_int (fl (4 / fl (of_nat (length fs) / of_nat fps))) + 1)) (Sequence fs fps))) 0 4)"
    using adj by (simp only: k_def q_def d_def x_def)
qed

lemma adjust_duration_long:
  assumes "fs \<noteq> []" "0 < fps" "6 < fl (of_nat (length fs) / of_nat fps)"
  shows "adjust_duration (Sequence fs fps) (fl (of_nat (length fs) / of_nat fps)) =
         Inr (Subclip (Sequence fs fps) 0 6)"
proof -
  define x :: rat where "x = of_nat (length fs) / of_nat fps"
  have x: "0 < x" using assms(1,2) by (simp add: x_def)
  have "6 < x"
  proof (rule ccontr)
    assume "\<not> 6 < x"
    then have "x \<le> of_int 6" by simp
    with x have "fl x \<le> of_int 6" by (rule fl_le_int) simp
    with assms(3) show False by (simp add: x_def)
  qed
  then show ?thesis
    using assms(3) by (simp add: adjust_duration_def subclipped_def x_def)
qed

lemma adjust_duration_between:
  assumes "\<not> d < 4" "\<not> 6 < d"
  shows "adjust_duration c d = Inr c"
  using assms by (simp add: adjust_duration_def)

lemma create_video_eq:
  assumes "frame_paths \<noteq> []" "0 < fps" "fps \<le> 2 ^ 51" "resized e" "encoded e = Some sz"
  shows "create_video e frame_paths out fps w =
     Inr (os_path_join VIDEOS_DIR out,
          w\<lparr>video_files := (video_files w)(out \<mapsto>
               \<lparr>seconds = (let d = fl (of_nat (length frame_paths) / of_nat fps)
                            in if d < 4 then 4 else if 6 < d then 6
                               else of_nat (length frame_paths) / of_nat fps),
                bytes = sz\<rparr>)\<rparr>)"
proof -
  let ?d = "fl (of_nat (length frame_paths) / of_nat fps)"
  consider "?d < 4" | "6 < ?d" | "\<not> ?d < 4" "\<not> 6 < ?d" by linarith
  then show ?thesis
  proof cases
    case 1
    with assms adjust_duration_loops(3) [OF assms(1-3) 1] show ?thesis
      by (simp add: create_video_def ImageSequenceClip_def Let_def)
  next
    case 2
    with assms adjust_duration_long [OF assms(1,2) 2] show ?thesis
      by (simp add: create_video_def ImageSequenceClip_def Let_def)
  next
    case 3
    with assms adjust_duration_between [OF 3, of "Sequence frame_paths fps"] show ?thesis
      by (simp add: create_video_def ImageSequenceClip_def Let_def)
  qed
qed

lemma short_clip:
  assumes "fs \<noteq> []" "length fs \<le> 20"
  shows "fl (of_nat (length fs) / 24) < 4"
proof -
  have "(of_nat (length fs) :: rat) \<le> 20"
    using assms(2) by (metis of_nat_le_iff of_nat_numeral)
  then have "(of_nat (length fs) / 24 :: rat) \<le> of_int 1" by simp
  moreover have "(0::rat) < of_nat (length fs) / 24" using assms(1) by simp
  ultimately have "fl (of_nat (length fs) / 24) \<le> of_int 1"
    by (intro fl_le_int) simp_all
  then show ?thesis by simp
qed

subsection \<open>The handler\<close>

lemma length_frames_fetched: "length (frames_fetched e n) \<le> nat n"
  unfolding frames_fetched_def
  using length_filter_le [of "fetched e" "[0..<nat n]"] by simp

lemma generate_frames_world:
  "generate_frames e prompt n (cleanup_frames e w) = (frames_fetched e n, after_frames e n w)"
  by (simp add: generate_frames_eq frames_fetched_def after_frames_def cleanup_frames_def)

lemma generate_video_no_prompt:
  "posted_prompt data = [] \<Longrightarrow>
   generate_video e data w = (jsonify (Error ''Prompt is required'') 400, w)"
  by (simp add: generate_video_def posted_prompt_def)

lemma generate_video_coerced:
  assumes "posted_prompt data \<noteq> []" "posted_frames data < 10 \<or> 20 < posted_frames data"
  shows "generate_video e data w = generate_video e (data\<lparr>json_num_frames := Some 15\<rparr>) w"
  using assms by (simp add: generate_video_def posted_prompt_def posted_frames_def)

lemma generate_video_no_frames:
  assumes "posted_prompt data \<noteq> []" "posted_frames data = n" "10 \<le> n" "n \<le> 20"
    and "frames_fetched e n = []"
  shows "generate_video e data w =
     (jsonify (Error ''Failed to generate frames'') 500, after_frames e n w)"
  using assms
  by (simp add: generate_video_def posted_prompt_def [symmetric] posted_frames_def [symmetric]
      generate_frames_world)

lemma create_video_24:
  assumes "fs \<noteq> []" "length fs \<le> 20"
  shows "create_video e fs out 24 w =
     (if resized e then
        case encoded e of
          None \<Rightarrow> Inl OSError
        | Some sz \<Rightarrow> Inr (os_path_join VIDEOS_DIR out,
                          w\<lparr>video_files := (video_files w)(out \<mapsto> \<lparr>seconds = 4, bytes = sz\<rparr>)\<rparr>)
      else Inl OSError)"
proof (cases "resized e")
  case False
  then show ?thesis using assms by (simp add: create_video_def)
next
  case True
  have short: "fl (of_nat (length fs) / of_nat 24) < 4"
    using short_clip [OF assms] by simp
  have fps: "0 < (24::nat)" "(24::nat) \<le> 2 ^ 51"
    by simp_all
  show ?thesis
  proof (cases "encoded e")
    case None
    then show ?thesis
      using True assms(1) adjust_duration_loops(3) [OF assms(1) fps short]
      by (simp add: create_video_def ImageSequenceClip_def Let_def)
  next
    case (Some sz)
    then show ?thesis
      using True short create_video_eq [OF assms(1) fps True Some, of out w]
      by (simp add: Let_def)
  qed
qed

lemma generate_video_assembly_failed:
  assumes "posted_prompt data \<noteq> []" "posted_frames data = n" "10 \<le> n" "n \<le> 20"
    and "frames_fetched e n \<noteq> []" "\<not> resized e \<or> encoded e = None"
  shows "generate_video e data w =
     (jsonify (Error (exception_text e OSError)) 500, cleanup_frames e (after_frames e n w))"
proof -
  have len: "length (frames_fetched e n) \<le> 20"
    using length_frames_fetched [of e n] assms(4) by simp
  show ?thesis
    using assms
    by (auto simp add: generate_video_def posted_prompt_def [symmetric] posted_frames_def [symmetric]
        generate_frames_world create_video_24 [OF assms(5) len] Let_def)
qed

lemma cleanup_frames_fields [simp]:
  "video_files (cleanup_frames e w) = video_files w"
  "metadata_file (cleanup_frames e w) = metadata_file w"
  "effects (cleanup_frames e w) = effects w"
  by (simp_all add: cleanup_frames_def)

lemma generate_video_success:
  assumes "posted_prompt data \<noteq> []" "posted_frames data = n" "10 \<le> n" "n \<le> 20"
    and "frames_fetched e n \<noteq> []" "resized e" "encoded e = Some sz"
  shows "generate_video e data w =
     (jsonify (Generated (''/static/videos/'' @ output_name e) (''/download/'' @ output_name e)
                 (length (frames_fetched e n))) 200,
      stored e data n sz w)"
proof -
  have len: "length (frames_fetched e n) \<le> 20"
    using length_frames_fetched [of e n] assms(4) by simp
  show ?thesis
    using assms
    by (simp add: generate_video_def posted_prompt_def [symmetric] posted_frames_def [symmetric]
        generate_frames_world create_video_24 [OF assms(5) len] stored_def Let_def
        output_name_def new_id_def)
qed

lemma effective_frames_range: "10 \<le> effective_frames data" "effective_frames data \<le> 20"
  by (simp_all add: effective_frames_def)

lemma generate_video_effective:
  assumes "posted_prompt data \<noteq> []"
  shows "generate_video e data w =
         generate_video e (data\<lparr>json_num_frames := Some (effective_frames data)\<rparr>) w"
  using assms by (simp add: generate_video_def posted_prompt_def posted_frames_def effective_frames_def)

lemma posted_update [simp]:
  "posted_prompt (data\<lparr>json_num_frames := x\<rparr>) = posted_prompt data"
  "posted_frames (data\<lparr>json_num_frames := Some n\<rparr>) = n"
  "stored e (data\<lparr>json_num_frames := x\<rparr>) n sz w = stored e data n sz w"
  by (simp_all add: posted_prompt_def posted_frames_def stored_def)

lemma generate_video_zero:
  assumes "posted_prompt data \<noteq> []" "frames_fetched e (effective_frames data) = []"
  shows "generate_video e data w =
     (jsonify (Error ''Failed to generate frames'') 500, after_frames e (effective_frames data) w)"
  using assms effective_frames_range [of data]
  by (simp add: generate_video_effective [OF assms(1), of e w] generate_video_no_frames)

lemma generate_video_raised:
  assumes "posted_prompt data \<noteq> []" "frames_fetched e (effective_frames data) \<noteq> []"
    and "\<not> resized e \<or> encoded e = None"
  shows "generate_video e data w =
     (jsonify (Error (exception_text e OSError)) 500,
      cleanup_frames e (after_frames e (effective_frames data) w))"
  using assms effective_frames_range [of data]
  by (simp add: generate_video_effective [OF assms(1), of e w] generate_video_assembly_failed)

lemma generate_video_stored:
  assumes "posted_prompt data \<noteq> []" "frames_fetched e (effective_frames data) \<noteq> []"
    and "resized e" "encoded e = Some sz"
  shows "generate_video e data w =
     (jsonify (Generated (''/static/videos/'' @ output_name e) (''/download/'' @ output_name e)
                 (length (frames_fetched e (effective_frames data)))) 200,
      stored e data (effective_frames data) sz w)"
  using assms effective_frames_range [of data]
  by (simp add: generate_video_effective [OF assms(1), of e w] generate_video_success)

section \<open>The duration policy of the assembler\<close>






section \<open>The outcomes of a generation request\<close>

lemma generate_video_cases:
  obtains
    (no_prompt) "posted_prompt data = []"
      "generate_video e data w = (jsonify (Error ''Prompt is required'') 400, w)"
  | (zero) "posted_prompt data \<noteq> []" "frames_fetched e (effective_frames data) = []"
      "generate_video e data w =
         (jsonify (Error ''Failed to generate frames'') 500, after_frames e (effective_frames data) w)"
  | (raised) "posted_prompt data \<noteq> []" "frames_fetched e (effective_frames data) \<noteq> []"
      "\<not> resized e \<or> encoded e = None"
      "generate_video e data w =
         (jsonify (Error (exception_text e OSError)) 500,
          cleanup_frames e (after_frames e (effective_frames data) w))"
  | (stored) sz where "posted_prompt data \<noteq> []"
      "frames_fetched e (effective_frames data) \<noteq> []" "resized e" "encoded e = Some sz"
      "generate_video e data w =
         (jsonify (Generated (''/static/videos/'' @ output_name e) (''/download/'' @ output_name e)
                     (length (frames_fetched e (effective_frames data)))) 200,
          stored e data (effective_frames data) sz w)"
proof (cases "posted_prompt data = []")
  case True
  then show ?thesis using no_prompt generate_video_no_prompt by blast
next
  case prompt: False
  show ?thesis
  proof (cases "frames_fetched e (effective_frames data) = []")
    case True
    then show ?thesis using zero prompt generate_video_zero by blast
  next
    case frames: False
    show ?thesis
    proof (cases "resized e \<and> encoded e \<noteq> None")
      case True
      then obtain sz where "resized e" "encoded e = Some sz" by auto
      then show ?thesis using stored prompt frames generate_video_stored by blast
    next
      case False
      then have "\<not> resized e \<or> encoded e = None" by simp
      then show ?thesis using raised prompt frames generate_video_raised by blast
    qed
  qed
qed

lemma generated_jsonify [simp]:
  "generated (jsonify (Error msg) st) = False"
  "generated (jsonify (Generated a b n) st) = True"
  by (simp_all add: generated_def jsonify_def)

lemma stored_video_file:
  "video_files (stored e data n sz w) (output_name e) = Some \<lparr>seconds = 4, bytes = sz\<rparr>"
  by (simp add: stored_def save_metadata_def Let_def)

lemma sample_requests:
  "posted_prompt lake = ''a calm lake at dawn''" "effective_frames lake = 15"
  "posted_frames lake = 15"
  by (simp_all add: posted_prompt_def effective_frames_def posted_frames_def lake_def strip_def isspace_def)

lemma sample_names:
  "output_name calm = ''anvesh_video_1700000000.mp4''" "new_id calm = ''vid_1700000000_4242''"
  by (simp_all add: output_name_def new_id_def calm_def str.simps digit_def)

lemma fetched_iff: "fetched e i \<longleftrightarrow> (\<exists>k < 5. net e i k = Status 200)"
proof
  assume "fetched e i"
  then have "failed_attempts (net e i) < 5" by (simp add: fetched_def)
  from failed_attempts_first(1) [OF this] this show "\<exists>k < 5. net e i k = Status 200" by blast
next
  assume "\<exists>k < 5. net e i k = Status 200"
  then have "failed_attempts (net e i) \<noteq> 5"
    using failed_attempts_all [of "net e i"] by auto
  then show "fetched e i"
    using failed_attempts_le [of "net e i"] by (simp add: fetched_def)
qed

lemma sample_fetched:
  "fetched calm i" "fetched throttled i \<longleftrightarrow> i \<noteq> 3" "\<not> fetched offline i"
  by (auto simp: fetched_iff calm_def throttled_def offline_def intro: exI [of _ 0])

lemma sample_encoders:
  "resized calm" "encoded calm = Some 1048576" "resized throttled"
  "encoded throttled = Some 1048576"
  by (simp_all add: calm_def throttled_def)

lemma lake_stored:
  "generate_video calm lake w =
     (jsonify (Generated ''/static/videos/anvesh_video_1700000000.mp4''
                 ''/download/anvesh_video_1700000000.mp4'' 15) 200,
      stored calm lake 15 1048576 w)"
proof -
  have fs: "frames_fetched calm 15 = map frame_path [0..<15]"
    by (simp add: frames_fetched_def sample_fetched)
  have "generate_video calm lake w =
     (jsonify (Generated (''/static/videos/'' @ output_name calm) (''/download/'' @ output_name calm)
                 (length (frames_fetched calm (effective_frames lake)))) 200,
      stored calm lake (effective_frames lake) 1048576 w)"
    by (rule generate_video_stored) (simp_all add: sample_requests sample_encoders fs)
  then show ?thesis
    by (simp add: sample_requests sample_names fs)
qed

section \<open>Durations of the videos made by the endpoint\<close>

text \<open>
  Claim C9. The frame list that \<^verbatim>\<open>generate_video\<close> hands to the assembler has at most
  20 frames, so at 24 frames per second its natural duration is at most \<open>20 / 24\<close>
  seconds, which is below 4, and so is the double that line 102 computes: the duration
  policy takes its first branch, loops the clip and cuts the loop to 4 seconds, and every
  video the endpoint stores lasts exactly 4 seconds. The branches for more than 6 seconds
  and for 4 to 6 seconds need at least 96 frames and are never taken from here.
\<close>

theorem endpoint_videos_last_four_seconds:
  "(let fs = fst (generate_frames e (posted_prompt data) (effective_frames data) (cleanup_frames e w));
        d = of_nat (length fs) / 24
    in d \<le> 20 / 24 \<and> d < 4 \<and> fl d < 4
       \<and> (fs \<noteq> [] \<longrightarrow>
            (\<exists>c'. adjust_duration (Sequence fs 24) (fl d) = Inr c' \<and> clip_duration c' = 4)
            \<and> adjust_duration (Sequence fs 24) (fl d) =
                Inr (Subclip (Concatenated (replicate (nat (py_int (fl (4 / fl d)) + 1))
                                                      (Sequence fs 24))) 0 4)))
   \<and> (generated (fst (generate_video e data w)) \<longrightarrow>
        (\<exists>sz. video_files (snd (generate_video e data w)) (output_name e) =
               Some \<lparr>seconds = 4, bytes = sz\<rparr>))"
proof -
  define fs where "fs = frames_fetched e (effective_frames data)"
  define d :: rat where "d = of_nat (length fs) / 24"
  have "length fs \<le> 20"
    using length_frames_fetched [of e "effective_frames data"] effective_frames_range(2) [of data]
    by (simp add: fs_def)
  then have "(of_nat (length fs) :: rat) \<le> 20"
    by (metis of_nat_le_iff of_nat_numeral)
  then have bound: "d \<le> 20 / 24" "d < 4"
    by (simp_all add: d_def)
  have short: "fl d < 4"
  proof (cases "fs = []")
    case True
    then show ?thesis by (simp add: d_def fl_def)
  next
    case False
    from short_clip [OF this \<open>length fs \<le> 20\<close>] show ?thesis by (simp add: d_def)
  qed
  have adj: "adjust_duration (Sequence fs 24) (fl d) =
      Inr (Subclip (Concatenated (replicate (nat (py_int (fl (4 / fl d)) + 1)) (Sequence fs 24))) 0 4)"
    if "fs \<noteq> []"
  proof -
    have "fl (of_nat (length fs) / of_nat 24) < 4"
      using short by (simp add: d_def)
    from adjust_duration_loops(3) [OF that _ _ this] show ?thesis
      by (simp add: d_def)
  qed
  have dur: "\<exists>c'. adjust_duration (Sequence fs 24) (fl d) = Inr c' \<and> clip_duration c' = 4"
    if "fs \<noteq> []"
    using adj [OF that] by simp
  have written: "\<exists>sz. video_files (snd (generate_video e data w)) (output_name e) =
      Some \<lparr>seconds = 4, bytes = sz\<rparr>" if "generated (fst (generate_video e data w))"
  proof (cases rule: generate_video_cases [where data = data and e = e and w = w])
    case no_prompt
    with that show ?thesis by simp
  next
    case zero
    with that show ?thesis by simp
  next
    case raised
    with that show ?thesis by simp
  next
    case (stored sz)
    then show ?thesis by (simp add: stored_video_file)
  qed
  show ?thesis
    unfolding generate_frames_world fst_conv Let_def fs_def [symmetric] d_def [symmetric]
    using bound short adj dur written by blast
qed

theorem endpoint_videos_last_four_seconds_witness:
  "generated (fst (generate_video calm lake fresh))
   \<and> video_files (snd (generate_video calm lake fresh)) ''anvesh_video_1700000000.mp4'' =
       Some \<lparr>seconds = 4, bytes = 1048576\<rparr>
   \<and> length (fst (generate_frames calm ''a calm lake at dawn'' 15 (cleanup_frames calm fresh))) = 15"
  using endpoint_videos_last_four_seconds [of calm lake fresh]
  by (simp add: lake_stored sample_requests sample_names stored_video_file [of calm, simplified sample_names]
      generate_frames_world frames_fetched_def sample_fetched)

section \<open>Traces and leftovers\<close>

lemma frames_begun_append: "frames_begun (xs @ ys) = frames_begun xs @ frames_begun ys"
  by (induction xs rule: frames_begun.induct) simp_all

lemma frames_begun_backoff: "frames_begun (backoff a k) = []"
  by (cases a) (simp_all add: backoff_def)

lemma frames_begun_later:
  "0 < j \<Longrightarrow> frames_begun (concat (map (\<lambda>k. Get i k # backoff (remote k) (k + 1)) [j..<m])) = []"
proof (induction m)
  case 0
  show ?case by simp
next
  case (Suc m)
  then show ?case
    by (cases "j \<le> m") (simp_all add: frames_begun_append frames_begun_backoff)
qed

lemma attempts_made_pos: "0 < attempts_made remote"
  by (simp add: attempts_made_def)

lemma frames_begun_image_trace: "frames_begun (image_trace remote i) = [i]"
proof -
  have "[0..<attempts_made remote] = 0 # [Suc 0..<attempts_made remote]"
    using attempts_made_pos [of remote] by (rule upt_conv_Cons)
  then show ?thesis
    using frames_begun_later [of "Suc 0" i remote "attempts_made remote"]
    by (simp add: image_trace_def frames_begun_append frames_begun_backoff)
qed

lemma frames_begun_frames_trace: "frames_begun (frames_trace e n is) = is"
  by (induction "is") (simp_all add: frames_trace_def frames_begun_append frames_begun_image_trace)

lemma save_metadata_fields [simp]:
  "video_files (save_metadata m w) = video_files w"
  "frames (save_metadata m w) = frames w"
  "effects (save_metadata m w) = effects w"
  "metadata_file (save_metadata m w) = Some m"
  by (simp_all add: save_metadata_def)

lemma after_frames_fields [simp]:
  "video_files (after_frames e n w) = video_files w"
  "metadata_file (after_frames e n w) = metadata_file w"
  "effects (after_frames e n w) = effects w @ frames_trace e n [0..<nat n]"
  by (simp_all add: after_frames_def)

lemma stored_fields [simp]:
  "effects (stored e data n sz w) = effects w @ frames_trace e n [0..<nat n]"
  by (simp add: stored_def Let_def)

lemma generate_video_effects:
  assumes "posted_prompt data \<noteq> []"
  shows "effects (snd (generate_video e data w)) =
         effects w @ frames_trace e (effective_frames data) [0..<nat (effective_frames data)]"
  using assms by (cases rule: generate_video_cases [where data = data and e = e and w = w]) simp_all

section \<open>The frame count of a request\<close>

text \<open>
  Claim C4. In \<^verbatim>\<open>generate_video\<close>, for a request with a prompt, the frame count is
  settled before the first frame is fetched: a posted count below 10 or above 20 becomes
  15 (the request then behaves in every respect as one that posted 15), a posted count
  from 10 to 20 is used as it is. The frames whose fetch the request begins are exactly
  those numbered from 0 up to that count, so between 10 and 20 of them.
\<close>

theorem generate_video_frame_count:
  assumes "posted_prompt data \<noteq> []"
  shows "let n = posted_frames data;
             begun = frames_begun (drop (length (effects w)) (effects (snd (generate_video e data w))))
         in (n < 10 \<or> 20 < n \<longrightarrow>
               begun = [0..<15]
               \<and> generate_video e data w = generate_video e (data\<lparr>json_num_frames := Some 15\<rparr>) w)
            \<and> (10 \<le> n \<and> n \<le> 20 \<longrightarrow> begun = [0..<nat n])
            \<and> 10 \<le> length begun \<and> length begun \<le> 20"
proof -
  have begun: "frames_begun (drop (length (effects w)) (effects (snd (generate_video e data w)))) =
      [0..<nat (effective_frames data)]"
    by (simp add: generate_video_effects [OF assms] frames_begun_frames_trace)
  have "generate_video e data w = generate_video e (data\<lparr>json_num_frames := Some 15\<rparr>) w"
    if "posted_frames data < 10 \<or> 20 < posted_frames data"
    using assms that by (rule generate_video_coerced)
  then show ?thesis
    unfolding Let_def begun
    using effective_frames_range [of data] by (auto simp: effective_frames_def)
qed

theorem generate_video_frame_count_witness:
  "frames_begun (effects (snd (generate_video calm (lake\<lparr>json_num_frames := Some 9\<rparr>) fresh))) = [0..<15]
   \<and> frames_begun (effects (snd (generate_video calm (lake\<lparr>json_num_frames := Some 21\<rparr>) fresh))) = [0..<15]
   \<and> frames_begun (effects (snd (generate_video calm (lake\<lparr>json_num_frames := Some (- 3)\<rparr>) fresh))) = [0..<15]
   \<and> frames_begun (effects (snd (generate_video calm (lake\<lparr>json_num_frames := None\<rparr>) fresh))) = [0..<15]
   \<and> frames_begun (effects (snd (generate_video calm (lake\<lparr>json_num_frames := Some 10\<rparr>) fresh))) = [0..<10]
   \<and> frames_begun (effects (snd (generate_video calm (lake\<lparr>json_num_frames := Some 20\<rparr>) fresh))) = [0..<20]"
proof -
  have p: "posted_prompt (lake\<lparr>json_num_frames := x\<rparr>) \<noteq> []" for x
    by (simp add: sample_requests)
  have n: "posted_frames (lake\<lparr>json_num_frames := None\<rparr>) = 15"
    by (simp add: posted_frames_def)
  show ?thesis
    using generate_video_frame_count [OF p, of "Some 9" fresh calm]
      generate_video_frame_count [OF p, of "Some 21" fresh calm]
      generate_video_frame_count [OF p, of "Some (- 3)" fresh calm]
      generate_video_frame_count [OF p, of None fresh calm]
      generate_video_frame_count [OF p, of "Some 10" fresh calm]
      generate_video_frame_count [OF p, of "Some 20" fresh calm]
      generate_video_frame_count [OF p, of "Some 15" fresh calm]
    by (simp add: Let_def n fresh_def)
qed

section \<open>Partial success of the orchestrator\<close>

lemma frames_fetched_Nil: "frames_fetched e n = [] \<longleftrightarrow> (\<forall>i < nat n. \<not> fetched e i)"
  by (auto simp: frames_fetched_def filter_empty_conv)

lemma exhausted: "\<not> fetched e i \<Longrightarrow> attempts_made (net e i) = 5"
  using failed_attempts_le [of "net e i"] by (simp add: fetched_def attempts_made_def)

text \<open>
  Claim C5. For a frame count \<open>n\<close> from 10 to 20, \<^verbatim>\<open>generate_frames\<close> returns the
  paths of the frames that were fetched (one of the five attempts met status 200), in
  index order, the others left out; so at most \<open>n\<close> paths. The list is empty exactly
  when every frame used up its five attempts without a 200. The handler answers
  \<open>Failed to generate frames\<close> when the list is empty; with one frame or more it goes on,
  and answers with the number of frames fetched when resizing and encoding go through.
\<close>

theorem generate_frames_partial_success:
  assumes "10 \<le> n" and "n \<le> 20"
  shows "fst (generate_frames e prompt n w) = map frame_path (filter (fetched e) [0..<nat n])
     \<and> (\<forall>i. fetched e i \<longleftrightarrow> (\<exists>k < 5. net e i k = Status 200))
     \<and> int (length (fst (generate_frames e prompt n w))) \<le> n
     \<and> (fst (generate_frames e prompt n w) = [] \<longleftrightarrow>
          (\<forall>i < nat n. (\<forall>k < 5. net e i k \<noteq> Status 200) \<and> attempts_made (net e i) = 5))
     \<and> (posted_prompt data \<noteq> [] \<and> posted_frames data = n \<longrightarrow>
          (if fst (generate_frames e prompt n w) = []
           then fst (generate_video e data w') = jsonify (Error ''Failed to generate frames'') 500
           else (resized e \<and> encoded e \<noteq> None \<longrightarrow>
                  fst (generate_video e data w') =
                    jsonify (Generated (''/static/videos/'' @ output_name e)
                                       (''/download/'' @ output_name e)
                                       (length (fst (generate_frames e prompt n w)))) 200)))"
proof -
  have fs: "fst (generate_frames e prompt n w) = frames_fetched e n"
    by (simp add: generate_frames_eq frames_fetched_def)
  have len: "int (length (frames_fetched e n)) \<le> n"
    using length_frames_fetched [of e n] assms by simp
  have nil: "frames_fetched e n = [] \<longleftrightarrow>
      (\<forall>i < nat n. (\<forall>k < 5. net e i k \<noteq> Status 200) \<and> attempts_made (net e i) = 5)"
    using exhausted [of e] by (auto simp: frames_fetched_Nil fetched_iff)
  have eff: "effective_frames data = n" if "posted_frames data = n"
    using that assms by (simp add: effective_frames_def)
  have zero: "fst (generate_video e data w') = jsonify (Error ''Failed to generate frames'') 500"
    if "posted_prompt data \<noteq> []" "posted_frames data = n" "frames_fetched e n = []"
    using that eff by (simp add: generate_video_zero)
  have some: "fst (generate_video e data w') =
      jsonify (Generated (''/static/videos/'' @ output_name e) (''/download/'' @ output_name e)
                 (length (frames_fetched e n))) 200"
    if "posted_prompt data \<noteq> []" "posted_frames data = n" "frames_fetched e n \<noteq> []"
      "resized e" "encoded e \<noteq> None"
  proof -
    from that(5) obtain sz where "encoded e = Some sz" by auto
    with that eff show ?thesis by (simp add: generate_video_stored)
  qed
  show ?thesis
    unfolding fs
    using len nil zero some by (auto simp: frames_fetched_def fetched_iff)
qed

lemma sample_names_throttled:
  "output_name throttled = ''anvesh_video_1700000000.mp4''"
  by (simp add: output_name_def throttled_def calm_def str.simps digit_def)

theorem generate_frames_partial_success_witness:
  "fst (generate_frames throttled ''a calm lake at dawn'' 15 fresh) =
     map frame_path [0, 1, 2, 4, 5, 6, 7, 8, 9, 10, 11, 12, 13, 14]
   \<and> fst (generate_video throttled lake fresh) =
       jsonify (Generated ''/static/videos/anvesh_video_1700000000.mp4''
                          ''/download/anvesh_video_1700000000.mp4'' 14) 200
   \<and> fst (generate_frames offline ''a calm lake at dawn'' 15 fresh) = []
   \<and> fst (generate_video offline lake fresh) = jsonify (Error ''Failed to generate frames'') 500"
proof -
  have r: "(10::int) \<le> 15" "(15::int) \<le> 20"
    by simp_all
  have t: "filter (fetched throttled) [0..<15] = [0, 1, 2, 4, 5, 6, 7, 8, 9, 10, 11, 12, 13, 14]"
    by (simp add: sample_fetched upt_rec)
  have off: "filter (fetched offline) [0..<15] = []"
    by (simp add: sample_fetched)
  have n: "Suc (Suc (Suc (Suc (Suc (Suc (Suc (Suc (Suc (Suc (Suc (Suc (Suc (Suc (0)))))))))))))) = (14::nat)"
    by simp
  show ?thesis
    using generate_frames_partial_success [OF r, of throttled "''a calm lake at dawn''" fresh lake fresh]
      generate_frames_partial_success [OF r, of offline "''a calm lake at dawn''" fresh lake fresh]
    by (simp add: t off n sample_requests sample_encoders sample_names_throttled)
qed

section \<open>Failed generation requests\<close>

lemma written_Cons:
  "written e (i # is) d = written e is (if touched (net e i) then d(frame_name i \<mapsto> RegularFile) else d)"
  by (simp add: written_def)

lemma written_keeps: "d f = Some RegularFile \<Longrightarrow> written e is d f = Some RegularFile"
proof (induction "is" arbitrary: d)
  case Nil
  then show ?case by (simp add: written_def)
next
  case (Cons i "is")
  show ?case
    unfolding written_Cons by (rule Cons.IH) (simp add: Cons.prems)
qed

lemma written_at:
  "i \<in> set is \<Longrightarrow> touched (net e i) \<Longrightarrow> written e is d (frame_name i) = Some RegularFile"
proof (induction "is" arbitrary: d)
  case Nil
  then show ?case by simp
next
  case (Cons j "is")
  show ?case
  proof (cases "j = i")
    case True
    show ?thesis
      unfolding written_Cons True using Cons.prems(2) by (simp add: written_keeps)
  next
    case False
    with Cons.prems have "i \<in> set is" by simp
    from Cons.IH [OF this Cons.prems(2)] show ?thesis
      unfolding written_Cons .
  qed
qed

lemma after_frames_touched:
  assumes "i < nat n" "touched (net e i)"
  shows "frames (after_frames e n w) (frame_name i) = Some RegularFile"
  using written_at [of i "[0..<nat n]" e] assms by (simp add: after_frames_def)

lemma cleanup_frames_unlinks:
  assumes "frames w f = Some RegularFile" "\<not> unlink_fails e f"
  shows "frames (cleanup_frames e w) f = None"
  using assms by (simp add: cleanup_frames_def)

lemma sample_frame_names:
  "frame_name 0 = ''frame_000.png''" "frame_name 14 = ''frame_014.png''"
  by code_simp+

lemma sample_touched: "touched (net diskfull i)" "touched (net broken i)"
  by (auto simp: touched_def diskfull_def broken_def calm_def list_ex_iff intro: exI [of _ 0])

text \<open>
  Claim C7 says that a request which fails for want of frames and one which fails in
  \<^verbatim>\<open>create_video\<close> both answer 500 with the frames directory cleaned. The code cleans
  only in the second case. When no frame was fetched, lines 205 and 206 return without
  calling \<^verbatim>\<open>cleanup_frames\<close>, and what the fetches left stays: with a remote that
  answers 200 at every attempt and a disk that takes no data, every frame opens its file
  at line 49 and fails at line 50, no frame is fetched, the answer is
  \<open>Failed to generate frames\<close> with status 500, and the fifteen files, which were not
  there before the request, are there after it. With the same request and an encoder
  that fails, the \<^verbatim>\<open>except\<close> branch of lines 238 to 240 removes them.
\<close>

theorem generate_video_zero_frames_leftover:
  "fst (generate_video diskfull lake fresh) = jsonify (Error ''Failed to generate frames'') 500
   \<and> frames fresh ''frame_000.png'' = None
   \<and> frames fresh ''frame_014.png'' = None
   \<and> frames (snd (generate_video diskfull lake fresh)) ''frame_000.png'' = Some RegularFile
   \<and> frames (snd (generate_video diskfull lake fresh)) ''frame_014.png'' = Some RegularFile
   \<and> metadata_file (snd (generate_video diskfull lake fresh)) = None
   \<and> status (fst (generate_video broken lake fresh)) = 500
   \<and> frames (snd (generate_video broken lake fresh)) ''frame_000.png'' = None
   \<and> frames (snd (generate_video broken lake fresh)) ''frame_014.png'' = None"
proof -
  have p: "posted_prompt lake \<noteq> []"
    by (simp add: sample_requests)
  have "\<not> fetched diskfull i" for i
    by (simp add: fetched_iff diskfull_def calm_def)
  then have full: "frames_fetched diskfull (effective_frames lake) = []"
    by (simp add: frames_fetched_def)
  have "fetched broken i" for i
    by (auto simp: fetched_iff broken_def calm_def intro: exI [of _ 0])
  then have bro: "frames_fetched broken (effective_frames lake) \<noteq> []"
    "\<not> resized broken \<or> encoded broken = None"
    by (simp_all add: frames_fetched_def sample_requests broken_def calm_def)
  have left: "frames (after_frames e 15 fresh) ''frame_000.png'' = Some RegularFile"
    "frames (after_frames e 15 fresh) ''frame_014.png'' = Some RegularFile"
    if "\<And>i. touched (net e i)" for e
    using after_frames_touched [of 0 15 e fresh] after_frames_touched [of 14 15 e fresh] that
    by (simp_all add: sample_frame_names)
  have unl: "\<not> unlink_fails broken f" for f
    by (simp add: broken_def calm_def)
  have zero: "generate_video diskfull lake fresh =
      (jsonify (Error ''Failed to generate frames'') 500, after_frames diskfull 15 fresh)"
    using generate_video_zero [OF p full, of fresh] by (simp add: sample_requests)
  have raised: "generate_video broken lake fresh =
      (jsonify (Error (exception_text broken OSError)) 500,
       cleanup_frames broken (after_frames broken 15 fresh))"
    using generate_video_raised [OF p bro, of fresh] by (simp add: sample_requests)
  show ?thesis
    unfolding zero raised fst_conv snd_conv
    using left [of diskfull, OF sample_touched(1)] left [of broken, OF sample_touched(2)]
    by (simp add: fresh_def jsonify_def cleanup_frames_unlinks [OF _ unl])
qed

section \<open>The session secret\<close>

text \<open>
  Claim C10. Importing the module with \<^verbatim>\<open>SESSION_SECRET\<close> unset does not fail: the
  secret key is the built-in string \<open>anvesh-ai-video-generator-secret\<close>. When the
  variable is set, the key is its value. Nothing is printed about the secret: the lines
  printed at startup are the same with and without the variable.
\<close>

theorem session_secret_fallback:
  "(environ ''SESSION_SECRET'' = None \<longrightarrow>
      secret_key (fst (startup environ)) = ''anvesh-ai-video-generator-secret'')
   \<and> (\<forall>v. environ ''SESSION_SECRET'' = Some v \<longrightarrow> secret_key (fst (startup environ)) = v)
   \<and> snd (startup environ) = snd (startup (environ(''SESSION_SECRET'' := None)))"
  by (simp add: startup_def environ_get_def Let_def)

theorem session_secret_fallback_witness:
  "secret_key (fst (startup Map.empty)) = ''anvesh-ai-video-generator-secret''
   \<and> secret_key (fst (startup operator_environ)) = ''s3cr3t''
   \<and> snd (startup operator_environ) = []"
  using session_secret_fallback [of Map.empty] session_secret_fallback [of operator_environ]
  by (simp add: operator_environ_def startup_def Let_def)

section \<open>Admin login without a password\<close>

lemma dispatch_stays_out:
  assumes "\<not> truthy (ADMIN_PASSWORD cfg)" "\<not> admin_logged_in s"
  shows "\<not> admin_logged_in (fst (snd (dispatch cfg r (s, w))))"
  using assms
  by (cases r) (simp_all add: admin_login_def admin_logout_def split: prod.splits)

lemma serve_stays_out:
  assumes "\<not> truthy (ADMIN_PASSWORD cfg)"
  shows "\<not> admin_logged_in s \<Longrightarrow> \<not> admin_logged_in (fst (snd (serve cfg rs (s, w))))"
proof (induction rs arbitrary: s w)
  case Nil
  then show ?case by simp
next
  case (Cons r rs)
  obtain resp s1 w1 where d: "dispatch cfg r (s, w) = (resp, s1, w1)"
    by (metis prod_cases3)
  have "\<not> admin_logged_in s1"
    using dispatch_stays_out [OF assms Cons.prems, of r w] d by simp
  from Cons.IH [OF this, of w1] show ?case
    by (auto simp: d split: prod.splits)
qed

text \<open>
  Claim C8. With \<^verbatim>\<open>ADMIN_PASSWORD\<close> unset, startup goes through and prints the two
  warning lines; every POST to \<^verbatim>\<open>/admin/login\<close> is answered with a failure of status
  500 (a 5xx status) and leaves the session as it was; and no sequence of requests
  turns a session that is not logged in into one that is.
\<close>

theorem admin_login_fails_closed:
  assumes "environ ''ADMIN_PASSWORD'' = None"
  shows "let cfg = fst (startup environ) in
           snd (startup environ) =
             [''WARNING: ADMIN_PASSWORD environment variable is not set. Admin panel will be inaccessible.'',
              ''Please set the ADMIN_PASSWORD secret in Replit Secrets to enable admin access.'']
           \<and> status (fst (admin_login cfg (Some password) s)) = 500
           \<and> body (fst (admin_login cfg (Some password) s)) =
               Failure ''Admin password not configured. Please set ADMIN_PASSWORD in Replit Secrets.''
           \<and> snd (admin_login cfg (Some password) s) = s
           \<and> (\<not> admin_logged_in s \<longrightarrow> \<not> admin_logged_in (fst (snd (serve cfg rs (s, w)))))"
proof -
  have pw: "\<not> truthy (ADMIN_PASSWORD (fst (startup environ)))"
    using assms by (simp add: startup_def Let_def)
  show ?thesis
    using assms pw serve_stays_out [OF pw, of s rs w]
    by (simp add: Let_def admin_login_def jsonify_def) (simp add: startup_def)
qed

theorem admin_login_fails_closed_witness:
  "status (fst (admin_login (fst (startup Map.empty)) (Some (Some ''hunter2'')) \<lparr>admin_logged_in = False\<rparr>)) = 500
   \<and> snd (admin_login (fst (startup Map.empty)) (Some (Some ''hunter2'')) \<lparr>admin_logged_in = False\<rparr>) =
       \<lparr>admin_logged_in = False\<rparr>
   \<and> \<not> admin_logged_in (fst (snd (serve (fst (startup Map.empty))
          [PostAdminLogin (Some ''hunter2''), PostAdminLogin None, GetAdmin, DeleteVideo ''vid_1700000000_4242'']
          (\<lparr>admin_logged_in = False\<rparr>, fresh))))
   \<and> fst (admin_login (fst (startup operator_environ)) (Some (Some ''hunter2'')) \<lparr>admin_logged_in = False\<rparr>) =
       jsonify Success 200"
proof -
  have ok: "fst (admin_login (fst (startup operator_environ)) (Some (Some ''hunter2'')) \<lparr>admin_logged_in = False\<rparr>) =
       jsonify Success 200"
    by (simp add: admin_login_def startup_def operator_environ_def environ_get_def Let_def)
  show ?thesis
    using admin_login_fails_closed [of Map.empty "Some ''hunter2''" "\<lparr>admin_logged_in = False\<rparr>"
        "[PostAdminLogin (Some ''hunter2''), PostAdminLogin None, GetAdmin, DeleteVideo ''vid_1700000000_4242'']" fresh]
      ok
    by (simp add: Let_def)
qed

section \<open>The metadata document under the handlers\<close>

lemma load_metadata_stored:
  "load_metadata (stored e data n sz w) =
     (load_metadata w)\<lparr>videos :=
         \<lparr>v_id = new_id e, v_filename = output_name e, v_prompt = posted_prompt data,
          v_num_frames = length (frames_fetched e n), v_created_at = isoformat e,
          v_file_size = sz\<rparr> # videos (load_metadata w),
       total_generated := total_generated (load_metadata w) + 1\<rparr>"
  by (simp add: stored_def Let_def load_metadata_def)

lemma load_metadata_after [simp]:
  "load_metadata (after_frames e n w) = load_metadata w"
  "load_metadata (cleanup_frames e w) = load_metadata w"
  by (simp_all add: load_metadata_def)

lemma counter_generate:
  "counter (snd (generate_video e data w)) =
     counter w + (if generated (fst (generate_video e data w)) then 1 else 0)"
  by (cases rule: generate_video_cases [where data = data and e = e and w = w])
     (simp_all add: counter_def load_metadata_stored)

lemma delete_video_metadata:
  assumes "admin_logged_in s"
  shows "load_metadata (snd (delete_video s video_id w)) =
     (load_metadata w)\<lparr>videos := filter (\<lambda>v. v_id v \<noteq> video_id) (videos (load_metadata w))\<rparr>"
proof (cases "find (\<lambda>video. v_id video = video_id) (videos (load_metadata w))")
  case None
  then have "filter (\<lambda>v. v_id v \<noteq> video_id) (videos (load_metadata w)) = videos (load_metadata w)"
    by (auto simp: find_None_iff filter_id_conv)
  then show ?thesis
    using assms None by (simp add: delete_video_def)
next
  case (Some video)
  then show ?thesis
    using assms by (simp add: delete_video_def Let_def load_metadata_def save_metadata_def)
qed

lemma counter_delete: "counter (snd (delete_video s video_id w)) = counter w"
proof (cases "admin_logged_in s")
  case True
  then show ?thesis by (simp add: counter_def delete_video_metadata)
next
  case False
  then show ?thesis by (simp add: delete_video_def)
qed

lemma generated_others [simp]:
  "\<not> generated index" "\<not> generated (admin s w)" "\<not> generated (fst (admin_login cfg posted s))"
  "\<not> generated (fst (admin_logout cfg s))" "\<not> generated (fst (delete_video s video_id w))"
  "\<not> generated (download_video file w)" "\<not> generated (stats s w)"
  by (simp_all add: generated_def index_def admin_def admin_login_def admin_logout_def
      delete_video_def download_video_def stats_def jsonify_def Let_def split: option.splits)

lemma counter_dispatch:
  "counter (snd (snd (dispatch cfg r (s, w)))) =
     counter w + (if generated (fst (dispatch cfg r (s, w))) then 1 else 0)"
  by (cases r) (simp_all add: counter_generate counter_delete split_beta)

lemma counter_serve:
  "counter (snd (snd (serve cfg rs (s, w)))) =
     counter w + int (length (filter generated (fst (serve cfg rs (s, w)))))"
proof (induction rs arbitrary: s w)
  case Nil
  show ?case by simp
next
  case (Cons r rs)
  obtain resp s1 w1 where d: "dispatch cfg r (s, w) = (resp, s1, w1)"
    by (metis prod_cases3)
  obtain resps s2 w2 where t: "serve cfg rs (s1, w1) = (resps, s2, w2)"
    by (metis prod_cases3)
  have "counter w1 = counter w + (if generated resp then 1 else 0)"
    using counter_dispatch [of cfg r s w] d by simp
  moreover have "counter w2 = counter w1 + int (length (filter generated resps))"
    using Cons.IH [of s1 w1] t by simp
  ultimately show ?case
    by (simp add: d t)
qed

lemma generated_stored:
  assumes "generated (fst (generate_video e data w))"
  shows "\<exists>sz. snd (generate_video e data w) = stored e data (effective_frames data) sz w"
  using assms
  by (cases rule: generate_video_cases [where data = data and e = e and w = w]) auto

lemma generated_ids:
  assumes "generated (fst (generate_video e data w))"
  shows "map v_id (videos (load_metadata (snd (generate_video e data w)))) =
         new_id e # map v_id (videos (load_metadata w))"
  using generated_stored [OF assms] by (auto simp: load_metadata_stored)

lemma delete_video_ids:
  assumes "admin_logged_in s"
  shows "map v_id (videos (load_metadata (snd (delete_video s video_id w)))) =
         filter (\<lambda>i. i \<noteq> video_id) (map v_id (videos (load_metadata w)))"
  by (simp add: delete_video_metadata [OF assms] filter_map comp_def)

lemma serve_five:
  "serve cfg [PostGenerate e1 d1, PostGenerate e2 d2, PostGenerate e3 d3, DeleteVideo a, DeleteVideo b] (s, w) =
     (let g1 = generate_video e1 d1 w; g2 = generate_video e2 d2 (snd g1);
          g3 = generate_video e3 d3 (snd g2); x4 = delete_video s a (snd g3);
          x5 = delete_video s b (snd x4)
      in ([fst g1, fst g2, fst g3, fst x4, fst x5], s, snd x5))"
  by (simp add: split_beta Let_def)

lemma two_of_three:
  assumes "distinct [i1, i2, i3 :: string]" "a \<in> set [i1, i2, i3]" "b \<in> set [i1, i2, i3]" "a \<noteq> b"
  shows "length (filter (\<lambda>i. i \<noteq> b) (filter (\<lambda>i. i \<noteq> a) [i3, i2, i1])) = 1"
  using assms by auto

section \<open>The counter of generated videos\<close>

text \<open>
  Claim C2. A generation request adds one to \<^verbatim>\<open>total_generated\<close> when it succeeds and
  nothing otherwise; \<^verbatim>\<open>delete_video\<close> leaves the counter as it is; over any sequence
  of requests to any of the routes the counter grows by the number of successful
  generations, so it never decreases. In particular, starting with no stored record,
  after three successful generations with three different ids and the deletion, by an
  admin, of two of them, the counter has grown by 3 and one record is stored.
\<close>

theorem total_generated_counter:
  "counter (snd (generate_video e data w)) =
     counter w + (if generated (fst (generate_video e data w)) then 1 else 0)
   \<and> counter (snd (delete_video s video_id w)) = counter w
   \<and> counter (snd (snd (serve cfg rs (s, w)))) =
       counter w + int (length (filter generated (fst (serve cfg rs (s, w)))))
   \<and> counter w \<le> counter (snd (snd (serve cfg rs (s, w))))
   \<and> (let run = serve cfg [PostGenerate e1 d1, PostGenerate e2 d2, PostGenerate e3 d3,
                             DeleteVideo a, DeleteVideo b] (s, w)
      in admin_logged_in s \<and> videos (load_metadata w) = []
         \<and> list_all generated (take 3 (fst run))
         \<and> distinct [new_id e1, new_id e2, new_id e3]
         \<and> a \<in> set [new_id e1, new_id e2, new_id e3]
         \<and> b \<in> set [new_id e1, new_id e2, new_id e3] \<and> a \<noteq> b
         \<longrightarrow> counter (snd (snd run)) = counter w + 3
             \<and> length (videos (load_metadata (snd (snd run)))) = 1)"
proof -
  let ?ops = "[PostGenerate e1 d1, PostGenerate e2 d2, PostGenerate e3 d3, DeleteVideo a, DeleteVideo b]"
  let ?run = "serve cfg ?ops (s, w)"
  have mono: "counter w \<le> counter (snd (snd (serve cfg rs (s, w))))"
    by (simp add: counter_serve)
  have scenario: "counter (snd (snd ?run)) = counter w + 3
      \<and> length (videos (load_metadata (snd (snd ?run)))) = 1"
    if adm: "admin_logged_in s" and none: "videos (load_metadata w) = []"
      and gen: "list_all generated (take 3 (fst ?run))"
      and dist: "distinct [new_id e1, new_id e2, new_id e3]"
      and a: "a \<in> set [new_id e1, new_id e2, new_id e3]"
      and b: "b \<in> set [new_id e1, new_id e2, new_id e3]" and ab: "a \<noteq> b"
  proof -
    define w1 where "w1 = snd (generate_video e1 d1 w)"
    define w2 where "w2 = snd (generate_video e2 d2 w1)"
    define w3 where "w3 = snd (generate_video e3 d3 w2)"
    define w4 where "w4 = snd (delete_video s a w3)"
    define w5 where "w5 = snd (delete_video s b w4)"
    have run: "?run = ([fst (generate_video e1 d1 w), fst (generate_video e2 d2 w1),
        fst (generate_video e3 d3 w2), fst (delete_video s a w3), fst (delete_video s b w4)], s, w5)"
      unfolding serve_five Let_def w1_def w2_def w3_def w4_def w5_def ..
    from gen [unfolded run] have g: "generated (fst (generate_video e1 d1 w))"
      "generated (fst (generate_video e2 d2 w1))" "generated (fst (generate_video e3 d3 w2))"
      by simp_all
    have "map v_id (videos (load_metadata w3)) = [new_id e3, new_id e2, new_id e1]"
      using generated_ids [OF g(1)] generated_ids [OF g(2)] generated_ids [OF g(3)] none
      by (simp add: w1_def w2_def w3_def)
    then have "map v_id (videos (load_metadata w5)) =
        filter (\<lambda>i. i \<noteq> b) (filter (\<lambda>i. i \<noteq> a) [new_id e3, new_id e2, new_id e1])"
      by (simp add: w5_def w4_def delete_video_ids [OF adm])
    then have "length (map v_id (videos (load_metadata w5))) = 1"
      using two_of_three [OF dist a b ab] by simp
    then have one: "length (videos (load_metadata w5)) = 1"
      by simp
    have "counter w5 = counter w + 3"
      using counter_serve [of cfg ?ops s w, unfolded run] g by simp
    with one show ?thesis
      unfolding run by simp
  qed
  show ?thesis
    unfolding Let_def
    using counter_generate [of e data w] counter_delete [of s video_id w]
      counter_serve [of cfg rs s w] mono scenario
    by blast
qed

lemma at_time_ids:
  "new_id (at_time 1700000000) = ''vid_1700000000_4242''"
  "new_id (at_time 1700000060) = ''vid_1700000060_4242''"
  "new_id (at_time 1700000120) = ''vid_1700000120_4242''"
  by (simp_all add: new_id_def at_time_def calm_def str.simps digit_def)

lemma at_time_generated: "generated (fst (generate_video (at_time t) lake w))"
proof -
  have "fetched (at_time t) i" for i
    by (auto simp: fetched_iff at_time_def calm_def intro: exI [of _ 0])
  then have "frames_fetched (at_time t) (effective_frames lake) \<noteq> []"
    by (simp add: frames_fetched_def sample_requests)
  moreover have "posted_prompt lake \<noteq> []" "resized (at_time t)" "encoded (at_time t) = Some 1048576"
    by (simp_all add: sample_requests at_time_def calm_def)
  ultimately show ?thesis
    by (simp add: generate_video_stored)
qed

theorem total_generated_counter_witness:
  "counter (snd (snd (serve (fst (startup operator_environ))
      [PostGenerate (at_time 1700000000) lake, PostGenerate (at_time 1700000060) lake,
       PostGenerate (at_time 1700000120) lake,
       DeleteVideo ''vid_1700000000_4242'', DeleteVideo ''vid_1700000120_4242'']
      (admin_session, fresh)))) = 3
   \<and> length (videos (load_metadata (snd (snd (serve (fst (startup operator_environ))
      [PostGenerate (at_time 1700000000) lake, PostGenerate (at_time 1700000060) lake,
       PostGenerate (at_time 1700000120) lake,
       DeleteVideo ''vid_1700000000_4242'', DeleteVideo ''vid_1700000120_4242'']
      (admin_session, fresh)))))) = 1"
proof -
  have start: "admin_logged_in admin_session" "videos (load_metadata fresh) = []" "counter fresh = 0"
    by (simp_all add: admin_session_def load_metadata_def fresh_def counter_def)
  have three: "list_all generated (take 3 (fst (serve (fst (startup operator_environ))
      [PostGenerate (at_time 1700000000) lake, PostGenerate (at_time 1700000060) lake,
       PostGenerate (at_time 1700000120) lake,
       DeleteVideo ''vid_1700000000_4242'', DeleteVideo ''vid_1700000120_4242'']
      (admin_session, fresh))))"
    unfolding serve_five Let_def by (simp add: at_time_generated)
  show ?thesis
    using total_generated_counter [where s = admin_session and w = fresh
        and cfg = "fst (startup operator_environ)"
        and ?e1.0 = "at_time 1700000000" and ?e2.0 = "at_time 1700000060"
        and ?e3.0 = "at_time 1700000120" and ?d1.0 = lake and ?d2.0 = lake and ?d3.0 = lake
        and a = "''vid_1700000000_4242''" and b = "''vid_1700000120_4242''"
        and e = calm and data = lake and video_id = "''x''" and rs = "[]"]
      start three
    unfolding Let_def at_time_ids by simp
qed

section \<open>Deleting a video\<close>

text \<open>
  Claim C3, amended. For an authorized \<^verbatim>\<open>DELETE /admin/delete/<video_id>\<close>: if some
  record has that id, every record with that id is removed from the document (exactly
  one, the matching record, when the ids in the document are pairwise distinct), the
  video file named by the first such record is deleted from storage, the counter is
  untouched, and the answer is a success; if no record has that id, the answer is
  \<open>Video not found\<close> with status 404 and nothing has changed.
\<close>

theorem delete_video_removes_matching:
  assumes "admin_logged_in s"
  shows "let vs = videos (load_metadata w); w' = snd (delete_video s video_id w) in
     case find (\<lambda>v. v_id v = video_id) vs of
       Some v \<Rightarrow>
         fst (delete_video s video_id w) = jsonify Success 200
         \<and> videos (load_metadata w') = filter (\<lambda>v. v_id v \<noteq> video_id) vs
         \<and> length (videos (load_metadata w')) + length (filter (\<lambda>v. v_id v = video_id) vs) = length vs
         \<and> (distinct (map v_id vs) \<longrightarrow>
               videos (load_metadata w') = remove1 v vs
               \<and> length (videos (load_metadata w')) + 1 = length vs)
         \<and> total_generated (load_metadata w') = total_generated (load_metadata w)
         \<and> video_files w' = (video_files w)(v_filename v := None)
         \<and> frames w' = frames w \<and> effects w' = effects w
     | None \<Rightarrow>
         fst (delete_video s video_id w) = jsonify (Error ''Video not found'') 404 \<and> w' = w"
proof (cases "find (\<lambda>v. v_id v = video_id) (videos (load_metadata w))")
  case None
  then show ?thesis
    using assms by (simp add: delete_video_def)
next
  case (Some v)
  let ?vs = "videos (load_metadata w)"
  have v: "v \<in> set ?vs" "v_id v = video_id"
    using Some by (auto simp: find_Some_iff)
  have count: "length (filter (\<lambda>v. v_id v \<noteq> video_id) ?vs) + length (filter (\<lambda>v. v_id v = video_id) ?vs)
      = length ?vs"
    using sum_length_filter_compl [of "\<lambda>v. v_id v = video_id" ?vs] by (simp add: add.commute)
  have unique: "filter (\<lambda>v. v_id v \<noteq> video_id) ?vs = remove1 v ?vs" if d: "distinct (map v_id ?vs)"
  proof -
    have dv: "distinct ?vs" using d by (simp add: distinct_map)
    have "(v_id x \<noteq> video_id) = (v \<noteq> x)" if "x \<in> set ?vs" for x
      using that v d by (auto simp: distinct_map inj_on_def)
    then have "filter (\<lambda>v. v_id v \<noteq> video_id) ?vs = filter (\<lambda>x. v \<noteq> x) ?vs"
      by (intro filter_cong) auto
    also have "\<dots> = removeAll v ?vs"
      by (simp add: removeAll_filter_not_eq)
    also have "\<dots> = remove1 v ?vs"
      using dv by (simp add: distinct_remove1_removeAll)
    finally show ?thesis .
  qed
  have len: "length (remove1 v ?vs) + 1 = length ?vs"
    using v(1) by (simp add: length_remove1) (metis One_nat_def Suc_pred length_pos_if_in_set)
  have files: "video_files (snd (delete_video s video_id w)) = (video_files w)(v_filename v := None)"
    using assms Some by (auto simp: delete_video_def Let_def)
  have rest: "frames (snd (delete_video s video_id w)) = frames w"
    "effects (snd (delete_video s video_id w)) = effects w"
    "fst (delete_video s video_id w) = jsonify Success 200"
    using assms Some by (simp_all add: delete_video_def Let_def)
  show ?thesis
    using Some count unique len files rest
    by (simp add: Let_def delete_video_metadata [OF assms])
qed

theorem delete_video_removes_matching_witness:
  "fst (delete_video admin_session ''vid_1700000000_4242'' shelf) = jsonify Success 200
   \<and> videos (load_metadata (snd (delete_video admin_session ''vid_1700000000_4242'' shelf))) = [dusk]
   \<and> video_files (snd (delete_video admin_session ''vid_1700000000_4242'' shelf))
        ''anvesh_video_1700000000.mp4'' = None
   \<and> video_files (snd (delete_video admin_session ''vid_1700000000_4242'' shelf))
        ''anvesh_video_1700000060.mp4'' = Some \<lparr>seconds = 4, bytes = 2097152\<rparr>
   \<and> total_generated (load_metadata (snd (delete_video admin_session ''vid_1700000000_4242'' shelf))) = 2
   \<and> delete_video admin_session ''vid_1700000000_9999'' shelf =
       (jsonify (Error ''Video not found'') 404, shelf)"
proof -
  have a: "admin_logged_in admin_session"
    by (simp add: admin_session_def)
  have vs: "videos (load_metadata shelf) = [dusk, dawn]" "total_generated (load_metadata shelf) = 2"
    by (simp_all add: shelf_def load_metadata_def fresh_def)
  have ids: "v_id dusk = ''vid_1700000060_1000''" "v_id dawn = ''vid_1700000000_4242''"
    "v_filename dawn = ''anvesh_video_1700000000.mp4''"
    by (simp_all add: dusk_def dawn_def)
  have files: "video_files shelf = [''anvesh_video_1700000000.mp4'' \<mapsto> \<lparr>seconds = 4, bytes = 1048576\<rparr>,
       ''anvesh_video_1700000060.mp4'' \<mapsto> \<lparr>seconds = 4, bytes = 2097152\<rparr>]"
    by (simp add: shelf_def fresh_def)
  show ?thesis
    using delete_video_removes_matching [OF a, of shelf "''vid_1700000000_4242''"]
      delete_video_removes_matching [OF a, of shelf "''vid_1700000000_9999''"]
    by (simp add: Let_def vs ids files prod_eq_iff)
qed

lemma twins_stored: "twins = stored calm lake 15 1048576 (stored calm lake 15 1048576 fresh)"
  by (simp add: twins_def lake_stored)

text \<open>
  The claim as stated, that exactly one record is removed, fails on the document that two
  generations in the same second with the same random suffix leave behind: both records
  carry the id \<open>vid_1700000000_4242\<close>, and deleting that id removes both.
\<close>

theorem delete_video_twins_counterexample:
  "map v_id (videos (load_metadata twins)) = [''vid_1700000000_4242'', ''vid_1700000000_4242'']
   \<and> fst (delete_video admin_session ''vid_1700000000_4242'' twins) = jsonify Success 200
   \<and> videos (load_metadata (snd (delete_video admin_session ''vid_1700000000_4242'' twins))) = []
   \<and> length (videos (load_metadata (snd (delete_video admin_session ''vid_1700000000_4242'' twins)))) + 1
       \<noteq> length (videos (load_metadata twins))"
proof -
  have a: "admin_logged_in admin_session"
    by (simp add: admin_session_def)
  have lf: "load_metadata fresh = \<lparr>videos = [], total_generated = 0\<rparr>"
    by (simp add: load_metadata_def fresh_def)
  have ids: "map v_id (videos (load_metadata twins)) = [''vid_1700000000_4242'', ''vid_1700000000_4242'']"
    by (simp add: twins_stored load_metadata_stored sample_names lf)
  then obtain x y where xy: "videos (load_metadata twins) = [x, y]"
    "v_id x = ''vid_1700000000_4242''" "v_id y = ''vid_1700000000_4242''"
    by auto
  have gone: "videos (load_metadata (snd (delete_video admin_session ''vid_1700000000_4242'' twins))) = []"
    by (simp add: delete_video_metadata [OF a] xy)
  have "fst (delete_video admin_session ''vid_1700000000_4242'' twins) = jsonify Success 200"
    using a xy by (simp add: delete_video_def Let_def)
  with ids gone xy show ?thesis
    by simp
qed

end
